theory Spec2Isabelle
  imports Complex_Main "HOL-Library.AList"
begin

section \<open>Effects: state, exceptions and the environment\<close>

text \<open>
  The program is a React component (\<^verbatim>\<open>src/App.tsx\<close>) together with a Gmail client
  (\<^verbatim>\<open>src/utils/gmail-service.ts\<close>).  Every handler of the component is modelled as a
  function from the component's state to an outcome and the new state.  The outcome is
  \<open>Inl e\<close> when the handler ends by a JavaScript exception \<open>e\<close> and \<open>Inr x\<close> when it
  returns \<open>x\<close>; the state that is returned holds every effect that happened before the
  exception.  Calls into the browser, the transport and the network are recorded in the
  field \<open>trace\<close> of the state, in the order in which they are made.

  The events of the browser are handled one at a time, as its event loop does.  The
  handler of a message of the session awaits promises (the decoder, the Gmail client): it
  runs up to an \<^verbatim>\<open>await\<close>, and the rest of its run is an event of its own, handled once
  the promise has settled, so that other events can be handled in between.  What a
  promise settles to is an answer of the environment.  The handler that starts a session
  awaits the microphone and the transport; no other handler writes what it reads after
  these awaits, and it is modelled as running to its end before the next event.
\<close>

datatype error =
    Error string      \<comment> \<open>\<^verbatim>\<open>new Error(msg)\<close>\<close>
  | TypeError         \<comment> \<open>property of \<^verbatim>\<open>undefined\<close>/\<^verbatim>\<open>null\<close>, call of a non-function, non-iterable\<close>
  | SyntaxError       \<comment> \<open>\<^verbatim>\<open>JSON.parse\<close> of a text that is not JSON\<close>
  | URIError          \<comment> \<open>\<^verbatim>\<open>encodeURIComponent\<close> of a lone surrogate\<close>
  | DOMException      \<comment> \<open>an exception raised by a browser object\<close>
  | Rejected          \<comment> \<open>a rejected promise of the network, the transport or the decoder\<close>

type_synonym ('s, 'a) prog = "'s \<Rightarrow> (error + 'a) \<times> 's"

definition ret :: "'a \<Rightarrow> ('s, 'a) prog" where
  "ret x = (\<lambda>s. (Inr x, s))"

definition throw :: "error \<Rightarrow> ('s, 'a) prog" where
  "throw e = (\<lambda>s. (Inl e, s))"

definition bnd :: "('s, 'a) prog \<Rightarrow> ('a \<Rightarrow> ('s, 'b) prog) \<Rightarrow> ('s, 'b) prog" where
  "bnd m f = (\<lambda>s. case m s of (Inl e, s') \<Rightarrow> (Inl e, s') | (Inr x, s') \<Rightarrow> f x s')"

definition seq :: "('s, unit) prog \<Rightarrow> ('s, 'b) prog \<Rightarrow> ('s, 'b) prog" where
  "seq m n = bnd m (\<lambda>_. n)"

text \<open>\<^verbatim>\<open>try { m } catch (e) { h(e) }\<close>\<close>

definition try_catch :: "('s, 'a) prog \<Rightarrow> (error \<Rightarrow> ('s, 'a) prog) \<Rightarrow> ('s, 'a) prog" where
  "try_catch m h = (\<lambda>s. case m s of (Inl e, s') \<Rightarrow> h e s' | (Inr x, s') \<Rightarrow> (Inr x, s'))"

text \<open>A pure computation that may throw, run inside a handler.\<close>

definition lift :: "error + 'a \<Rightarrow> ('s, 'a) prog" where
  "lift r = (\<lambda>s. (r, s))"

definition modify :: "('s \<Rightarrow> 's) \<Rightarrow> ('s, unit) prog" where
  "modify f = (\<lambda>s. (Inr (), f s))"

text \<open>\<^verbatim>\<open>xs.forEach(f)\<close> and \<^verbatim>\<open>for (const x of xs) f(x)\<close>: the first exception ends the loop.\<close>

fun for_each :: "('a \<Rightarrow> ('s, unit) prog) \<Rightarrow> 'a list \<Rightarrow> ('s, unit) prog" where
  "for_each f [] = ret ()"
| "for_each f (x # xs) = seq (f x) (for_each f xs)"

definition bindE :: "error + 'a \<Rightarrow> ('a \<Rightarrow> error + 'b) \<Rightarrow> error + 'b" where
  "bindE r f = (case r of Inl e \<Rightarrow> Inl e | Inr x \<Rightarrow> f x)"


section \<open>Data model\<close>

subsection \<open>JavaScript values\<close>

text \<open>
  Values whose TypeScript type is \<^verbatim>\<open>any\<close> (the bodies of the Gmail responses, the
  arguments of a function call, the parsed contents of \<^verbatim>\<open>localStorage\<close>) are modelled as
  JSON values extended by \<^verbatim>\<open>undefined\<close>.  An object is an association list in insertion
  order; \<open>map_of\<close> reads a property.
\<close>

datatype json =
    JUndefined
  | JNull
  | JBool bool
  | JNum real
  | JStr string
  | JArr "json list"
  | JObj "(string \<times> json) list"

text \<open>The truthiness of a value, as tested by \<^verbatim>\<open>if (v)\<close>, \<^verbatim>\<open>!v\<close>, \<^verbatim>\<open>v || d\<close> and \<^verbatim>\<open>v && w\<close>.\<close>

fun truthy :: "json \<Rightarrow> bool" where
  "truthy JUndefined = False"
| "truthy JNull = False"
| "truthy (JBool b) = b"
| "truthy (JNum n) = (n \<noteq> 0)"
| "truthy (JStr s) = (s \<noteq> [])"
| "truthy (JArr xs) = True"
| "truthy (JObj kvs) = True"

text \<open>
  \<^verbatim>\<open>v.k\<close> for the property names the program reads (\<^verbatim>\<open>payload\<close>, \<^verbatim>\<open>headers\<close>,
  \<^verbatim>\<open>body\<close>, \<^verbatim>\<open>data\<close>, \<^verbatim>\<open>parts\<close>, \<^verbatim>\<open>mimeType\<close>, \<^verbatim>\<open>name\<close>, \<^verbatim>\<open>value\<close>, \<^verbatim>\<open>id\<close>,
  \<^verbatim>\<open>snippet\<close>, \<^verbatim>\<open>labelIds\<close>, \<^verbatim>\<open>messages\<close>): a TypeError on \<^verbatim>\<open>undefined\<close> and
  \<^verbatim>\<open>null\<close>, the property or \<^verbatim>\<open>undefined\<close> on an object, and \<^verbatim>\<open>undefined\<close> on a
  boolean, a number, a string or an array, none of which has a property of these names.
\<close>

fun get_prop :: "json \<Rightarrow> string \<Rightarrow> error + json" where
  "get_prop JUndefined k = Inl TypeError"
| "get_prop JNull k = Inl TypeError"
| "get_prop (JObj kvs) k = Inr (case map_of kvs k of None \<Rightarrow> JUndefined | Some v \<Rightarrow> v)"
| "get_prop v k = Inr JUndefined"

subsection \<open>Handles of the browser and of the transport\<close>

datatype SessionStatus = IDLE | CONNECTING | CONNECTED | ERROR

text \<open>
  An \<^verbatim>\<open>AudioBufferSourceNode\<close> created by the message handler: its identity, the time
  it was started at and the duration of its buffer.
\<close>

record source_node =
  src_id :: nat
  src_start :: real
  src_duration :: real

text \<open>\<^verbatim>\<open>audioNodesRef.current\<close>: the microphone source and the script processor.\<close>

record audio_nodes =
  node_source :: nat
  node_processor :: nat

type_synonym session_handle = nat
type_synonym track = nat
type_synonym audio_frame = "real list"

text \<open>The two kinds of request \<^verbatim>\<open>GmailService\<close> sends, by the parts of the URL that vary.\<close>

datatype request =
    List_messages string json   \<comment> \<open>\<^verbatim>\<open>.../messages?q=${q}&maxResults=${maxResults}\<close>\<close>
  | Get_message json            \<comment> \<open>\<^verbatim>\<open>.../messages/${message.id}\<close>\<close>

text \<open>\<^verbatim>\<open>{ id: fc.id, name: fc.name, response: { result } }\<close>\<close>

record function_response =
  resp_id :: "string option"
  resp_name :: "string option"
  resp_result :: json

datatype event =
    Ev_setStatus SessionStatus
  | Ev_disconnect nat                       \<comment> \<open>\<^verbatim>\<open>node.disconnect()\<close>\<close>
  | Ev_session_close session_handle         \<comment> \<open>\<^verbatim>\<open>sessionRef.current.close()\<close>\<close>
  | Ev_track_stop track                     \<comment> \<open>\<^verbatim>\<open>track.stop()\<close>\<close>
  | Ev_source_stop source_node              \<comment> \<open>\<^verbatim>\<open>source.stop()\<close>\<close>
  | Ev_source_start source_node             \<comment> \<open>\<^verbatim>\<open>source.start(t)\<close>, \<open>t\<close> is \<open>src_start\<close>\<close>
  | Ev_new_client string                    \<comment> \<open>\<^verbatim>\<open>new GoogleGenAI({ apiKey })\<close>\<close>
  | Ev_getUserMedia                         \<comment> \<open>\<^verbatim>\<open>navigator.mediaDevices.getUserMedia\<close>\<close>
  | Ev_new_audio_contexts                   \<comment> \<open>the two \<^verbatim>\<open>new AudioContext\<close>\<close>
  | Ev_connect                              \<comment> \<open>\<^verbatim>\<open>ai.live.connect\<close>\<close>
  | Ev_sendToolResponse function_response   \<comment> \<open>\<^verbatim>\<open>sessionRef.current.sendToolResponse\<close>\<close>
  | Ev_sendRealtimeInput session_handle json   \<comment> \<open>\<^verbatim>\<open>s.sendRealtimeInput({ media })\<close>\<close>
  | Ev_fetch string request                 \<comment> \<open>\<^verbatim>\<open>fetch(url, { headers: { Authorization } })\<close>\<close>

subsection \<open>Inbound messages\<close>

text \<open>
  A \<^verbatim>\<open>LiveServerMessage\<close>, by the fields the handler reads.  A field that the type of
  the message declares optional is optional in the model, whether the handler guards the
  access or not: \<^verbatim>\<open>serverContent\<close>, \<^verbatim>\<open>modelTurn\<close> and its \<^verbatim>\<open>parts\<close>, \<^verbatim>\<open>inlineData\<close>
  and its \<^verbatim>\<open>data\<close>, the two transcriptions and their \<^verbatim>\<open>text\<close>, \<^verbatim>\<open>toolCall\<close> and its
  \<^verbatim>\<open>functionCalls\<close>, and the \<^verbatim>\<open>id\<close>, the \<^verbatim>\<open>name\<close> and the \<^verbatim>\<open>args\<close> of a function
  call.  \<open>None\<close> is \<^verbatim>\<open>undefined\<close>.  The properties of \<^verbatim>\<open>fc.args\<close> have distinct names.
\<close>

record part =
  inlineData :: "string option option"     \<comment> \<open>\<^verbatim>\<open>part.inlineData\<close>, then its \<^verbatim>\<open>data\<close>\<close>

record serverContent =
  inputTranscription :: "string option option"
  outputTranscription :: "string option option"
  turnComplete :: bool
  interrupted :: bool
  modelTurn :: "part list option option"   \<comment> \<open>\<^verbatim>\<open>modelTurn\<close>, then its \<^verbatim>\<open>parts\<close>\<close>

record functionCall =
  fc_id :: "string option"
  fc_name :: "string option"
  fc_args :: "(string \<times> json) list option"

record message =
  serverContent :: "serverContent option"
  toolCall :: "functionCall list option option"   \<comment> \<open>\<^verbatim>\<open>toolCall\<close>, then its \<^verbatim>\<open>functionCalls\<close>\<close>

text \<open>
  The handler of a message is an \<^verbatim>\<open>async\<close> function.  It runs until it awaits a promise
  that has not settled; what is left of its run is a continuation, which the event loop
  runs as an event of its own once the promise has settled.  The handler awaits at two
  places: the decoder of an audio chunk (the continuation keeps the chunk and the
  message) and the Gmail client in a mail branch of the loop over the function calls
  (the continuation keeps the call and the calls of the batch that follow it).
\<close>

datatype continuation =
    After_decode string message
  | After_mail functionCall "functionCall list"

subsection \<open>The environment\<close>

text \<open>
  What the program cannot decide is a field of the environment, and every theorem holds
  for every environment.  These are: whether a call of \<^verbatim>\<open>disconnect\<close>, of \<^verbatim>\<open>stop\<close> on a
  source or on a track, of \<^verbatim>\<open>close\<close> on the session, of \<^verbatim>\<open>sendRealtimeInput\<close> or of
  \<^verbatim>\<open>sendToolResponse\<close> throws; whether React runs a state updater at once; the answers of
  the network, of the microphone and of the transport, which can be a rejected promise;
  the random identifiers and the wall clock; the builtins \<^verbatim>\<open>atob\<close> and
  \<^verbatim>\<open>encodeURIComponent\<close>, which can throw, \<^verbatim>\<open>toLowerCase\<close>, \<^verbatim>\<open>trim\<close>, the conversion to a
  string in a template literal and \<^verbatim>\<open>replace(/<.*>/, '')\<close>; and the three functions of
  \<^verbatim>\<open>src/utils/audio.ts\<close>, a file of the repository that is not among the sources
  (\<^verbatim>\<open>decode\<close> and \<^verbatim>\<open>decodeAudioData\<close>, taken together, and \<^verbatim>\<open>createBlob\<close>, which gives a
  blob or a failure).  Every other call of an object of the browser, of the transport or
  of React is taken to return.  Answers that can differ from call to call take the number
  of environment calls made so far (the field \<open>ticks\<close> of the state) as an argument.

  The decoding of a chunk throws before there is a promise to await, or gives a promise
  that is rejected, or gives a promise that is fulfilled with a buffer, of which the
  program reads the duration.

  Times and durations are the numbers of JavaScript, IEEE doubles, taken as the reals
  they denote.  The maximum of two of them is exact.  Their sum is rounded: the field
  \<open>float_add\<close> is the addition of the doubles, \<^verbatim>\<open>+\<close> in \<^verbatim>\<open>nextStartTimeRef.current +=
  buffer.duration\<close>, of which a theorem assumes only what it states.
\<close>

datatype decode_outcome = Decode_throws | Decode_rejects | Buffer real

record world =
  apiKey :: "string option"                               \<comment> \<open>\<^verbatim>\<open>import.meta.env.VITE_API_KEY\<close>\<close>
  disconnect_throws :: "nat \<Rightarrow> bool"
  stop_throws :: "source_node \<Rightarrow> bool"
  close_throws :: "session_handle \<Rightarrow> bool"
  track_stop_throws :: "track \<Rightarrow> bool"
  send_realtime_throws :: "nat \<Rightarrow> bool"
  sendToolResponse_throws :: "nat \<Rightarrow> bool"
  runs_updater_at_once :: "nat \<Rightarrow> bool"
  getUserMedia :: "nat \<Rightarrow> track list option"             \<comment> \<open>\<open>None\<close>: the promise is rejected\<close>
  connect :: "nat \<Rightarrow> session_handle option"               \<comment> \<open>\<open>None\<close>: the promise is rejected\<close>
  fetch :: "nat \<Rightarrow> string \<Rightarrow> request \<Rightarrow> json option"       \<comment> \<open>\<open>None\<close>: \<^verbatim>\<open>fetch\<close> or \<^verbatim>\<open>.json()\<close> rejects\<close>
  randomUUID :: "nat \<Rightarrow> string"
  dateNow :: "nat \<Rightarrow> real"
  decodeAudioData :: "string \<Rightarrow> decode_outcome"
  float_add :: "real \<Rightarrow> real \<Rightarrow> real"
  createBlob :: "audio_frame \<Rightarrow> error + json"
  atob :: "string \<Rightarrow> string option"                       \<comment> \<open>\<open>None\<close>: InvalidCharacterError\<close>
  toLowerCase :: "string \<Rightarrow> string"
  trim :: "string \<Rightarrow> string"
  encodeURIComponent :: "json \<Rightarrow> string option"           \<comment> \<open>\<open>None\<close>: URIError\<close>
  toStr :: "json \<Rightarrow> string"                              \<comment> \<open>\<^verbatim>\<open>`${v}`\<close>\<close>
  replace_angle :: "string \<Rightarrow> string"                     \<comment> \<open>\<^verbatim>\<open>s.replace(/<.*>/, '')\<close>\<close>

subsection \<open>The state of the component\<close>

text \<open>
  A text kept in \<^verbatim>\<open>localStorage\<close>, by what \<^verbatim>\<open>JSON.parse\<close> makes of it: the empty
  text, the text \<^verbatim>\<open>JSON.stringify\<close> writes for a value, or any other text.
\<close>

datatype stored_text = Text_empty | Text_json json | Text_garbage

text \<open>An \<^verbatim>\<open>Email\<close> of \<^verbatim>\<open>gmail-service.ts\<close>.  Fields copied from a response are \<^verbatim>\<open>any\<close> at run time.\<close>

record email =
  email_id :: json
  email_from :: json
  email_subject :: json
  email_snippet :: json
  email_body :: string
  email_date :: json
  email_isUnread :: bool

record app_state =
  status :: SessionStatus
  isSpeaking :: bool
  memories :: "json list"
  currentInput :: string
  currentOutput :: string
  tasks :: json
  drafts :: json
  emails :: "email list"
  gmailAuthenticated :: bool                 \<comment> \<open>the state variable \<^verbatim>\<open>isGmailAuthenticated\<close>\<close>
  audioContext :: bool                       \<comment> \<open>\<^verbatim>\<open>audioContextRef.current\<close> is not null\<close>
  nextStartTime :: real                      \<comment> \<open>\<^verbatim>\<open>nextStartTimeRef.current\<close>\<close>
  sources :: "source_node list"              \<comment> \<open>\<^verbatim>\<open>sourcesRef.current\<close>, in insertion order\<close>
  session :: "session_handle option"         \<comment> \<open>\<^verbatim>\<open>sessionRef.current\<close>\<close>
  stream :: "track list option"              \<comment> \<open>\<^verbatim>\<open>streamRef.current\<close>\<close>
  audioNodes :: "audio_nodes option"         \<comment> \<open>\<^verbatim>\<open>audioNodesRef.current\<close>\<close>
  localStorage :: "string \<Rightarrow> stored_text option"
  accessToken :: "string option"             \<comment> \<open>\<^verbatim>\<open>gmailService.accessToken\<close>\<close>
  pending :: "continuation list"             \<comment> \<open>the handlers that await, oldest first\<close>
  queued_memories :: "json list"             \<comment> \<open>the updaters of \<^verbatim>\<open>setMemories\<close> that wait\<close>
  ticks :: nat
  trace :: "event list"

definition emit :: "event \<Rightarrow> (app_state, unit) prog" where
  "emit ev = modify (\<lambda>s. s\<lparr>trace := trace s @ [ev]\<rparr>)"

definition tick :: "(app_state, nat) prog" where
  "tick = (\<lambda>s. (Inr (ticks s), s\<lparr>ticks := Suc (ticks s)\<rparr>))"

definition setStatus :: "SessionStatus \<Rightarrow> (app_state, unit) prog" where
  "setStatus st = seq (modify (\<lambda>s. s\<lparr>status := st\<rparr>)) (emit (Ev_setStatus st))"

text \<open>A call of a browser method that the environment may make throw.\<close>

definition call :: "event \<Rightarrow> bool \<Rightarrow> (app_state, unit) prog" where
  "call ev throws = seq (emit ev) (if throws then throw DOMException else ret ())"


section \<open>The output timeline and the cleanup of the session (\<^verbatim>\<open>src/App.tsx\<close>)\<close>

text \<open>
  \<^verbatim>\<open>
  const cleanupAudioNodes = useCallback(() => {
    if (audioNodesRef.current) {
      try {
        audioNodesRef.current.processor.disconnect();
        audioNodesRef.current.source.disconnect();
      } catch (e) { }
      audioNodesRef.current = null;
    }
  }, []);
  \<close>
\<close>

definition cleanupAudioNodes :: "world \<Rightarrow> (app_state, unit) prog" where
  "cleanupAudioNodes w = (\<lambda>s.
     case audioNodes s of
       None \<Rightarrow> ret () s
     | Some n \<Rightarrow>
         seq (try_catch
                (seq (call (Ev_disconnect (node_processor n)) (disconnect_throws w (node_processor n)))
                     (call (Ev_disconnect (node_source n)) (disconnect_throws w (node_source n))))
                (\<lambda>e. ret ()))
             (modify (\<lambda>s. s\<lparr>audioNodes := None\<rparr>)) s)"

text \<open>
  \<^verbatim>\<open>
  const stopAllAudio = useCallback(() => {
    sourcesRef.current.forEach(source => {
      try { source.stop(); } catch (e) { }
    });
    sourcesRef.current.clear();
    nextStartTimeRef.current = 0;
  }, []);
  \<close>
\<close>

definition stopAllAudio :: "world \<Rightarrow> (app_state, unit) prog" where
  "stopAllAudio w = (\<lambda>s.
     seq (for_each (\<lambda>source. try_catch (call (Ev_source_stop source) (stop_throws w source))
                                        (\<lambda>e. ret ()))
                   (sources s))
         (modify (\<lambda>s. s\<lparr>sources := [], nextStartTime := 0\<rparr>)) s)"

text \<open>
  \<^verbatim>\<open>
  const endConnection = () => {
    cleanupAudioNodes();
    if (sessionRef.current) {
      sessionRef.current.close();
      sessionRef.current = null;
    }
    if (streamRef.current) {
      streamRef.current.getTracks().forEach(track => track.stop());
      streamRef.current = null;
    }
    stopAllAudio();
    setStatus(SessionStatus.IDLE);
  };
  \<close>
\<close>

text \<open>The two \<^verbatim>\<open>if\<close> blocks of \<^verbatim>\<open>endConnection\<close>, then the function itself.\<close>

definition close_session :: "world \<Rightarrow> (app_state, unit) prog" where
  "close_session w = (\<lambda>s.
     case session s of
       None \<Rightarrow> ret () s
     | Some h \<Rightarrow> seq (call (Ev_session_close h) (close_throws w h))
                     (modify (\<lambda>s. s\<lparr>session := None\<rparr>)) s)"

definition release_stream :: "world \<Rightarrow> (app_state, unit) prog" where
  "release_stream w = (\<lambda>s.
     case stream s of
       None \<Rightarrow> ret () s
     | Some tracks \<Rightarrow>
         seq (for_each (\<lambda>t. call (Ev_track_stop t) (track_stop_throws w t)) tracks)
             (modify (\<lambda>s. s\<lparr>stream := None\<rparr>)) s)"

definition endConnection :: "world \<Rightarrow> (app_state, unit) prog" where
  "endConnection w =
     seq (cleanupAudioNodes w)
    (seq (close_session w)
    (seq (release_stream w)
    (seq (stopAllAudio w)
         (setStatus IDLE))))"


section \<open>The Gmail client (\<^verbatim>\<open>src/utils/gmail-service.ts\<close>)\<close>

text \<open>
  \<^verbatim>\<open>setAccessToken(token: string) { this.accessToken = token; }\<close>
\<close>

definition setAccessToken :: "string \<Rightarrow> (app_state, unit) prog" where
  "setAccessToken token = modify (\<lambda>s. s\<lparr>accessToken := Some token\<rparr>)"

text \<open>\<^verbatim>\<open>!this.accessToken\<close> is false for a token that is neither \<^verbatim>\<open>null\<close> nor empty.\<close>

definition token_present :: "string option \<Rightarrow> bool" where
  "token_present t = (case t of None \<Rightarrow> False | Some k \<Rightarrow> k \<noteq> [])"

text \<open>
  \<^verbatim>\<open>await (await fetch(url, { headers: { Authorization: `Bearer ${this.accessToken}` } })).json()\<close>
\<close>

definition fetch_json :: "world \<Rightarrow> request \<Rightarrow> (app_state, json) prog" where
  "fetch_json w req = (\<lambda>s.
     let token = (case accessToken s of None \<Rightarrow> ''null'' | Some k \<Rightarrow> k) in
     bnd tick (\<lambda>n.
     seq (emit (Ev_fetch token req))
         (case fetch w n token req of None \<Rightarrow> throw Rejected | Some j \<Rightarrow> ret j)) s)"

subsection \<open>\<^verbatim>\<open>parseEmail\<close>\<close>

text \<open>
  \<^verbatim>\<open>headers.find((h: any) => h.name.toLowerCase() === name.toLowerCase())\<close> on the
  elements of an array: a header that is \<^verbatim>\<open>null\<close> or whose \<^verbatim>\<open>name\<close> is not a string
  raises a TypeError; the result is the first match, or \<^verbatim>\<open>undefined\<close>.
\<close>

fun find_header :: "world \<Rightarrow> string \<Rightarrow> json list \<Rightarrow> error + json" where
  "find_header w name [] = Inr JUndefined"
| "find_header w name (h # hs) =
     (case get_prop h ''name'' of
        Inl e \<Rightarrow> Inl e
      | Inr (JStr n) \<Rightarrow>
          if toLowerCase w n = toLowerCase w name then Inr h else find_header w name hs
      | Inr _ \<Rightarrow> Inl TypeError)"

text \<open>
  \<^verbatim>\<open>
  const getHeader = (name: string) => {
      const header = headers.find(...);
      return header ? header.value : '';
  };
  \<close>
  \<^verbatim>\<open>headers.find\<close> is a function only when \<^verbatim>\<open>headers\<close> is an array.
\<close>

definition getHeader :: "world \<Rightarrow> json \<Rightarrow> string \<Rightarrow> error + json" where
  "getHeader w headers name =
     (case headers of
        JArr hs \<Rightarrow>
          bindE (find_header w name hs) (\<lambda>header.
          if truthy header then get_prop header ''value'' else Inr (JStr []))
      | _ \<Rightarrow> Inl TypeError)"

text \<open>\<^verbatim>\<open>parts.find((part: any) => part.mimeType === 'text/plain')\<close> on the elements of an array.\<close>

fun find_part :: "json list \<Rightarrow> error + json" where
  "find_part [] = Inr JUndefined"
| "find_part (p # ps) =
     (case get_prop p ''mimeType'' of
        Inl e \<Rightarrow> Inl e
      | Inr m \<Rightarrow> if m = JStr ''text/plain'' then Inr p else find_part ps)"

text \<open>
  \<^verbatim>\<open>atob(data.replace(/-/g, '+').replace(/_/g, '/'))\<close> for a truthy \<^verbatim>\<open>data\<close>:
  \<^verbatim>\<open>replace\<close> is a function only when \<^verbatim>\<open>data\<close> is a string.
\<close>

definition decode_body :: "world \<Rightarrow> json \<Rightarrow> error + string" where
  "decode_body w data =
     (case data of
        JStr d \<Rightarrow>
          (case atob w (map (\<lambda>c. if c = CHR ''_'' then CHR ''/'' else c)
                          (map (\<lambda>c. if c = CHR ''-'' then CHR ''+'' else c) d)) of
             None \<Rightarrow> Inl DOMException
           | Some b \<Rightarrow> Inr b)
      | _ \<Rightarrow> Inl TypeError)"

text \<open>
  \<^verbatim>\<open>
  let body = '';
  if (message.payload.body.data) {
      body = atob(message.payload.body.data.replace(/-/g, '+').replace(/_/g, '/'));
  } else if (message.payload.parts) {
      const textPart = message.payload.parts.find((part: any) => part.mimeType === 'text/plain');
      if (textPart && textPart.body.data) {
          body = atob(textPart.body.data.replace(/-/g, '+').replace(/_/g, '/'));
      }
  }
  \<close>
\<close>

definition extract_body :: "world \<Rightarrow> json \<Rightarrow> error + string" where
  "extract_body w payload =
     bindE (get_prop payload ''body'') (\<lambda>b.
     bindE (get_prop b ''data'') (\<lambda>data.
     if truthy data then decode_body w data
     else bindE (get_prop payload ''parts'') (\<lambda>parts.
          if truthy parts then
            (case parts of
               JArr ps \<Rightarrow>
                 bindE (find_part ps) (\<lambda>textPart.
                 if truthy textPart then
                   bindE (get_prop textPart ''body'') (\<lambda>tb.
                   bindE (get_prop tb ''data'') (\<lambda>td.
                   if truthy td then decode_body w td else Inr []))
                 else Inr [])
             | _ \<Rightarrow> Inl TypeError)
          else Inr [])))"

text \<open>\<^verbatim>\<open>s.includes(sub)\<close> on strings.\<close>

fun str_includes :: "string \<Rightarrow> string \<Rightarrow> bool" where
  "str_includes [] sub = (sub = [])"
| "str_includes (c # cs) sub = (take (length sub) (c # cs) = sub \<or> str_includes cs sub)"

text \<open>
  \<^verbatim>\<open>message.labelIds?.includes('UNREAD') || false\<close>: \<^verbatim>\<open>includes\<close> is a function on
  arrays and on strings only.
\<close>

fun includes_unread :: "json \<Rightarrow> error + bool" where
  "includes_unread JUndefined = Inr False"
| "includes_unread JNull = Inr False"
| "includes_unread (JArr xs) = Inr (JStr ''UNREAD'' \<in> set xs)"
| "includes_unread (JStr s) = Inr (str_includes s ''UNREAD'')"
| "includes_unread v = Inl TypeError"

text \<open>
  \<^verbatim>\<open>
  private parseEmail(message: any): Email {
      const headers = message.payload.headers;
      ...
      return {
          id: message.id,
          from: getHeader('From'),
          subject: getHeader('Subject'),
          snippet: message.snippet,
          body: body.substring(0, 500), // Limit body length
          date: getHeader('Date'),
          isUnread: message.labelIds?.includes('UNREAD') || false,
      };
  }
  \<close>
\<close>

definition parseEmail :: "world \<Rightarrow> json \<Rightarrow> error + email" where
  "parseEmail w message =
     bindE (get_prop message ''payload'') (\<lambda>payload.
     bindE (get_prop payload ''headers'') (\<lambda>headers.
     bindE (extract_body w payload) (\<lambda>body.
     bindE (get_prop message ''id'') (\<lambda>mid.
     bindE (getHeader w headers ''From'') (\<lambda>frm.
     bindE (getHeader w headers ''Subject'') (\<lambda>subject.
     bindE (get_prop message ''snippet'') (\<lambda>snippet.
     bindE (getHeader w headers ''Date'') (\<lambda>date.
     bindE (get_prop message ''labelIds'') (\<lambda>labelIds.
     bindE (includes_unread labelIds) (\<lambda>isUnread.
     Inr \<lparr>email_id = mid, email_from = frm, email_subject = subject, email_snippet = snippet,
          email_body = take 500 body, email_date = date, email_isUnread = isUnread\<rparr>))))))))))"

subsection \<open>\<^verbatim>\<open>getUnreadEmails\<close> and \<^verbatim>\<open>searchEmails\<close>\<close>

text \<open>
  \<^verbatim>\<open>for (const message of listData.messages)\<close>: an array gives its elements, a string
  its characters, and any other truthy value is not iterable.
\<close>

fun iterate :: "json \<Rightarrow> error + json list" where
  "iterate (JArr xs) = Inr xs"
| "iterate (JStr s) = Inr (map (\<lambda>c. JStr [c]) s)"
| "iterate v = Inl TypeError"

text \<open>
  The body of that loop, the same in both functions:
  \<^verbatim>\<open>
  const detailResponse = await fetch(`.../messages/${message.id}`, { headers: ... });
  const detail = await detailResponse.json();
  emails.push(this.parseEmail(detail));
  \<close>
  The list \<open>acc\<close> is the array \<^verbatim>\<open>emails\<close> built so far.
\<close>

fun fetch_details :: "world \<Rightarrow> json list \<Rightarrow> email list \<Rightarrow> (app_state, email list) prog" where
  "fetch_details w [] acc = ret acc"
| "fetch_details w (message # rest) acc =
     bnd (lift (get_prop message ''id'')) (\<lambda>mid.
     bnd (fetch_json w (Get_message mid)) (\<lambda>detail.
     bnd (lift (parseEmail w detail)) (\<lambda>e.
     fetch_details w rest (acc @ [e]))))"

text \<open>
  \<^verbatim>\<open>
  async getUnreadEmails(maxResults: number = 10): Promise<Email[]> {
      if (!this.accessToken) {
          throw new Error('Not authenticated with Gmail');
      }
      try {
          const listResponse = await fetch(`.../messages?q=is:unread&maxResults=${maxResults}`, ...);
          const listData = await listResponse.json();
          if (!listData.messages) {
              return [];
          }
          const emails: Email[] = [];
          for (const message of listData.messages) { ... }
          return emails;
      } catch (error) {
          console.error('Error fetching emails:', error);
          throw error;
      }
  }
  \<close>
\<close>

definition getUnreadEmails :: "world \<Rightarrow> json \<Rightarrow> (app_state, email list) prog" where
  "getUnreadEmails w maxResults0 = (\<lambda>s.
     let maxResults = (if maxResults0 = JUndefined then JNum 10 else maxResults0) in
     if \<not> token_present (accessToken s) then throw (Error ''Not authenticated with Gmail'') s
     else
       try_catch
         (bnd (fetch_json w (List_messages ''is:unread'' maxResults)) (\<lambda>listData.
          bnd (lift (get_prop listData ''messages'')) (\<lambda>messages.
          if \<not> truthy messages then ret []
          else bnd (lift (iterate messages)) (\<lambda>ms. fetch_details w ms []))))
         (\<lambda>e. throw e) s)"

text \<open>
  \<^verbatim>\<open>searchEmails(query: string, maxResults: number = 10)\<close> differs in the URL only:
  \<^verbatim>\<open>q=${encodeURIComponent(query)}\<close>, evaluated inside the \<^verbatim>\<open>try\<close>.
\<close>

definition searchEmails :: "world \<Rightarrow> json \<Rightarrow> json \<Rightarrow> (app_state, email list) prog" where
  "searchEmails w query maxResults0 = (\<lambda>s.
     let maxResults = (if maxResults0 = JUndefined then JNum 10 else maxResults0) in
     if \<not> token_present (accessToken s) then throw (Error ''Not authenticated with Gmail'') s
     else
       try_catch
         (bnd (lift (case encodeURIComponent w query of None \<Rightarrow> Inl URIError | Some q \<Rightarrow> Inr q)) (\<lambda>q.
          bnd (fetch_json w (List_messages q maxResults)) (\<lambda>listData.
          bnd (lift (get_prop listData ''messages'')) (\<lambda>messages.
          if \<not> truthy messages then ret []
          else bnd (lift (iterate messages)) (\<lambda>ms. fetch_details w ms [])))))
         (\<lambda>e. throw e) s)"

subsection \<open>\<^verbatim>\<open>summarizeEmails\<close>\<close>

text \<open>
  \<^verbatim>\<open>
  const summary = emails.map((email, index) => {
      const from = email.from.replace(/<.*>/, '').trim();
      return `${index + 1}. From ${from}: ${email.subject}`;
  }).join('\n');
  \<close>
  \<^verbatim>\<open>email.from\<close> is the value of a header, or \<^verbatim>\<open>''\<close>; \<^verbatim>\<open>replace\<close> is a function only
  when it is a string.
\<close>

definition template :: "world \<Rightarrow> json \<Rightarrow> string" where
  "template w v = (case v of JStr s \<Rightarrow> s | _ \<Rightarrow> toStr w v)"

fun summary_lines :: "world \<Rightarrow> nat \<Rightarrow> email list \<Rightarrow> error + string list" where
  "summary_lines w index [] = Inr []"
| "summary_lines w index (e # es) =
     (case email_from e of
        JStr f \<Rightarrow>
          bindE (summary_lines w (Suc index) es) (\<lambda>ls.
          Inr ((toStr w (JNum (real (index + 1))) @ ''. From '' @ trim w (replace_angle w f)
                @ '': '' @ template w (email_subject e)) # ls))
      | _ \<Rightarrow> Inl TypeError)"

fun join_lines :: "string list \<Rightarrow> string" where
  "join_lines [] = []"
| "join_lines [l] = l"
| "join_lines (l # ls) = l @ [CHR 0x0A] @ join_lines ls"

text \<open>
  \<^verbatim>\<open>
  async summarizeEmails(emails: Email[]): Promise<string> {
      if (emails.length === 0) {
          return 'You have no unread emails.';
      }
      const summary = ...;
      return `You have ${emails.length} unread email${emails.length > 1 ? 's' : ''}:\n${summary}`;
  }
  \<close>
\<close>

definition summarizeEmails :: "world \<Rightarrow> email list \<Rightarrow> error + string" where
  "summarizeEmails w es =
     (if length es = 0 then Inr ''You have no unread emails.''
      else bindE (summary_lines w 0 es) (\<lambda>ls.
           Inr (''You have '' @ toStr w (JNum (real (length es))) @ '' unread email''
                @ (if length es > 1 then ''s'' else []) @ '':'' @ [CHR 0x0A] @ join_lines ls)))"


section \<open>The session message handler (\<^verbatim>\<open>src/App.tsx\<close>)\<close>

definition MEMORY_KEY :: string where
  "MEMORY_KEY = ''friend_assistant_memories''"

definition TASKS_KEY :: string where
  "TASKS_KEY = ''aura_tasks''"

definition DRAFTS_KEY :: string where
  "DRAFTS_KEY = ''aura_drafts''"

subsection \<open>\<^verbatim>\<open>JSON.parse\<close>, \<^verbatim>\<open>JSON.stringify\<close> and \<^verbatim>\<open>localStorage\<close>\<close>

text \<open>
  \<^verbatim>\<open>JSON.stringify\<close> leaves out the properties that are \<^verbatim>\<open>undefined\<close> and writes
  \<^verbatim>\<open>null\<close> for an \<^verbatim>\<open>undefined\<close> element of an array; \<open>json_norm v\<close> is the value that
  the text written for \<open>v\<close> parses to.
\<close>

fun json_norm :: "json \<Rightarrow> json" where
  "json_norm JUndefined = JNull"
| "json_norm (JArr xs) = JArr (map json_norm xs)"
| "json_norm (JObj kvs) =
     JObj (map (\<lambda>(k, v). (k, json_norm v)) (filter (\<lambda>(k, v). v \<noteq> JUndefined) kvs))"
| "json_norm v = v"

definition JSON_stringify :: "json \<Rightarrow> stored_text" where
  "JSON_stringify v = Text_json (json_norm v)"

fun JSON_parse :: "stored_text \<Rightarrow> error + json" where
  "JSON_parse (Text_json v) = Inr v"
| "JSON_parse Text_empty = Inl SyntaxError"
| "JSON_parse Text_garbage = Inl SyntaxError"

text \<open>\<^verbatim>\<open>JSON.parse(localStorage.getItem(key) || '[]')\<close>\<close>

definition parse_item :: "string \<Rightarrow> (app_state, json) prog" where
  "parse_item key = (\<lambda>s.
     lift (JSON_parse (case localStorage s key of
                         None \<Rightarrow> Text_json (JArr [])
                       | Some Text_empty \<Rightarrow> Text_json (JArr [])
                       | Some t \<Rightarrow> t)) s)"

definition setItem :: "string \<Rightarrow> stored_text \<Rightarrow> (app_state, unit) prog" where
  "setItem key t = modify (\<lambda>s. s\<lparr>localStorage := (localStorage s)(key \<mapsto> t)\<rparr>)"

text \<open>\<^verbatim>\<open>fc.args.k\<close>: a TypeError when the call has no \<^verbatim>\<open>args\<close>.\<close>

definition arg :: "functionCall \<Rightarrow> string \<Rightarrow> error + json" where
  "arg fc k =
     (case fc_args fc of
        None \<Rightarrow> Inl TypeError
      | Some args \<Rightarrow> Inr (case map_of args k of None \<Rightarrow> JUndefined | Some v \<Rightarrow> v))"

text \<open>
  \<^verbatim>\<open>{ ...obj, ...fc.args }\<close>: the properties of \<^verbatim>\<open>fc.args\<close>, in order, set on \<open>obj\<close>; the
  spread of \<^verbatim>\<open>undefined\<close> sets none.
\<close>

definition spread :: "(string \<times> json) list \<Rightarrow> (string \<times> json) list option \<Rightarrow> (string \<times> json) list" where
  "spread obj args =
     (case args of None \<Rightarrow> obj | Some kvs \<Rightarrow> foldl (\<lambda>ob (k, v). AList.update k v ob) obj kvs)"

subsection \<open>Tool calls\<close>

text \<open>
  \<^verbatim>\<open>
  const persistMemory = useCallback((content: string) => {
    setMemories(prev => {
      const newMemory: Memory = { id: crypto.randomUUID(), content, timestamp: Date.now() };
      const updated = [...prev, newMemory];
      localStorage.setItem(MEMORY_KEY, JSON.stringify(updated));
      return updated;
    });
    return "Memory saved successfully.";
  }, []);
  \<close>
  \<open>add_memory\<close> is the updater given to \<^verbatim>\<open>setMemories\<close>.  React runs an updater either
  at once, inside the call of \<^verbatim>\<open>setMemories\<close>, or when it next renders the component,
  after the handler that made the call has given up control; which of the two is an
  answer of the environment.  An updater that waits is kept, with those before it, in the
  field \<open>queued_memories\<close>, and \<open>render\<close> runs the updaters that wait, in order.
\<close>

definition add_memory :: "world \<Rightarrow> json \<Rightarrow> (app_state, unit) prog" where
  "add_memory w content =
     bnd tick (\<lambda>n.
     bnd tick (\<lambda>m. (\<lambda>s.
       let newMemory = JObj [(''id'', JStr (randomUUID w n)), (''content'', content),
                             (''timestamp'', JNum (dateNow w m))];
           updated = memories s @ [newMemory]
       in seq (setItem MEMORY_KEY (JSON_stringify (JArr updated)))
              (modify (\<lambda>s. s\<lparr>memories := updated\<rparr>)) s)))"

definition persistMemory :: "world \<Rightarrow> json \<Rightarrow> (app_state, json) prog" where
  "persistMemory w content =
     bnd tick (\<lambda>n.
     seq (if runs_updater_at_once w n then add_memory w content
          else modify (\<lambda>s. s\<lparr>queued_memories := queued_memories s @ [content]\<rparr>))
         (ret (JStr ''Memory saved successfully.'')))"

definition render :: "world \<Rightarrow> (app_state, unit) prog" where
  "render w = (\<lambda>s.
     seq (modify (\<lambda>s. s\<lparr>queued_memories := []\<rparr>))
         (for_each (add_memory w) (queued_memories s)) s)"

text \<open>
  \<^verbatim>\<open>
  const draft = { id: crypto.randomUUID(), ...fc.args, timestamp: Date.now() };
  const drafts = JSON.parse(localStorage.getItem(DRAFTS_KEY) || '[]');
  drafts.push(draft);
  localStorage.setItem(DRAFTS_KEY, JSON.stringify(drafts));
  setDrafts(drafts);
  result = `Email draft created! Subject: "${fc.args.subject}". You can copy it from the drafts section.`;
  \<close>
  \<^verbatim>\<open>push\<close> is a function only when the parsed value is an array.  The subject is read
  from \<^verbatim>\<open>fc.args\<close> after the draft has been stored.
\<close>

definition write_email :: "world \<Rightarrow> functionCall \<Rightarrow> (app_state, json) prog" where
  "write_email w fc =
     bnd tick (\<lambda>n.
     bnd tick (\<lambda>m.
     let draft = JObj (AList.update ''timestamp'' (JNum (dateNow w m))
                        (spread [(''id'', JStr (randomUUID w n))] (fc_args fc))) in
     bnd (parse_item DRAFTS_KEY) (\<lambda>parsed.
     case parsed of
       JArr ds \<Rightarrow>
         seq (setItem DRAFTS_KEY (JSON_stringify (JArr (ds @ [draft]))))
        (seq (modify (\<lambda>s. s\<lparr>drafts := JArr (ds @ [draft])\<rparr>))
        (bnd (lift (arg fc ''subject'')) (\<lambda>subject.
             ret (JStr (''Email draft created! Subject: \"'' @ template w subject
                         @ ''\". You can copy it from the drafts section.'')))))
     | _ \<Rightarrow> throw TypeError)))"

text \<open>
  \<^verbatim>\<open>
  const task = { id: crypto.randomUUID(), ...fc.args, completed: false, timestamp: Date.now() };
  const tasks = JSON.parse(localStorage.getItem(TASKS_KEY) || '[]');
  tasks.push(task);
  localStorage.setItem(TASKS_KEY, JSON.stringify(tasks));
  setTasks(tasks);
  result = `Task created: "${fc.args.title}"`;
  \<close>
\<close>

definition create_task :: "world \<Rightarrow> functionCall \<Rightarrow> (app_state, json) prog" where
  "create_task w fc =
     bnd tick (\<lambda>n.
     bnd tick (\<lambda>m.
     let task = JObj (AList.update ''timestamp'' (JNum (dateNow w m))
                       (AList.update ''completed'' (JBool False)
                         (spread [(''id'', JStr (randomUUID w n))] (fc_args fc)))) in
     bnd (parse_item TASKS_KEY) (\<lambda>parsed.
     case parsed of
       JArr ts \<Rightarrow>
         seq (setItem TASKS_KEY (JSON_stringify (JArr (ts @ [task]))))
        (seq (modify (\<lambda>s. s\<lparr>tasks := JArr (ts @ [task])\<rparr>))
        (bnd (lift (arg fc ''title'')) (\<lambda>title.
             ret (JStr (''Task created: \"'' @ template w title @ ''\"'')))))
     | _ \<Rightarrow> throw TypeError)))"

text \<open>\<^verbatim>\<open>(fc.args.maxResults as number) || 10\<close>\<close>

definition maxResults_of :: "functionCall \<Rightarrow> error + json" where
  "maxResults_of fc = bindE (arg fc ''maxResults'') (\<lambda>v. Inr (if truthy v then v else JNum 10))"

text \<open>
  \<^verbatim>\<open>
  if (!isGmailAuthenticated) {
    result = "Please sign in to Gmail first to read your emails.";
  } else {
    try {
      const maxResults = (fc.args.maxResults as number) || 10;
      const fetchedEmails = await gmailService.getUnreadEmails(maxResults);
      setEmails(fetchedEmails);
      result = await gmailService.summarizeEmails(fetchedEmails);
    } catch (error) {
      result = "Sorry, I couldn't read your emails. Please try signing in again.";
    }
  }
  \<close>
  \<open>isGmailAuthenticated\<close> is the value of the state variable that the callback has closed
  over.
\<close>

definition read_emails :: "world \<Rightarrow> bool \<Rightarrow> functionCall \<Rightarrow> (app_state, json) prog" where
  "read_emails w isGmailAuthenticated fc =
     (if \<not> isGmailAuthenticated then ret (JStr ''Please sign in to Gmail first to read your emails.'')
      else
        try_catch
          (bnd (lift (maxResults_of fc)) (\<lambda>maxResults.
           bnd (getUnreadEmails w maxResults) (\<lambda>fetchedEmails.
           seq (modify (\<lambda>s. s\<lparr>emails := fetchedEmails\<rparr>))
          (bnd (lift (summarizeEmails w fetchedEmails)) (\<lambda>summary.
           ret (JStr summary))))))
          (\<lambda>e. ret (JStr ''Sorry, I couldn't read your emails. Please try signing in again.'')))"

text \<open>
  \<^verbatim>\<open>
  if (!isGmailAuthenticated) {
    result = "Please sign in to Gmail first to search your emails.";
  } else {
    try {
      const maxResults = (fc.args.maxResults as number) || 10;
      const searchResults = await gmailService.searchEmails(fc.args.query as string, maxResults);
      setEmails(searchResults);
      result = await gmailService.summarizeEmails(searchResults);
    } catch (error) {
      result = "Sorry, I couldn't search your emails. Please try again.";
    }
  }
  \<close>
\<close>

definition search_emails :: "world \<Rightarrow> bool \<Rightarrow> functionCall \<Rightarrow> (app_state, json) prog" where
  "search_emails w isGmailAuthenticated fc =
     (if \<not> isGmailAuthenticated then ret (JStr ''Please sign in to Gmail first to search your emails.'')
      else
        try_catch
          (bnd (lift (maxResults_of fc)) (\<lambda>maxResults.
           bnd (lift (arg fc ''query'')) (\<lambda>query.
           bnd (searchEmails w query maxResults) (\<lambda>searchResults.
           seq (modify (\<lambda>s. s\<lparr>emails := searchResults\<rparr>))
          (bnd (lift (summarizeEmails w searchResults)) (\<lambda>summary.
           ret (JStr summary)))))))
          (\<lambda>e. ret (JStr ''Sorry, I couldn't search your emails. Please try again.'')))"

text \<open>
  The chain \<^verbatim>\<open>let result: any = "ok"; if (fc.name === 'save_memory') { ... } else if ...\<close>
  of one iteration of the loop over the function calls.  The argument of \<^verbatim>\<open>persistMemory\<close>,
  \<^verbatim>\<open>fc.args.content\<close>, is read before the call.
\<close>

definition run_function :: "world \<Rightarrow> bool \<Rightarrow> functionCall \<Rightarrow> (app_state, json) prog" where
  "run_function w isGmailAuthenticated fc =
     (if fc_name fc = Some ''save_memory'' then bnd (lift (arg fc ''content'')) (persistMemory w)
      else if fc_name fc = Some ''get_memories'' then parse_item MEMORY_KEY
      else if fc_name fc = Some ''write_email'' then write_email w fc
      else if fc_name fc = Some ''create_task'' then create_task w fc
      else if fc_name fc = Some ''read_emails'' then read_emails w isGmailAuthenticated fc
      else if fc_name fc = Some ''search_emails'' then search_emails w isGmailAuthenticated fc
      else ret (JStr ''ok''))"

text \<open>
  \<^verbatim>\<open>
  if (sessionRef.current) {
    sessionRef.current.sendToolResponse({
      functionResponses: { id: fc.id, name: fc.name, response: { result } }
    });
  }
  \<close>
  The call of \<^verbatim>\<open>sendToolResponse\<close> is not inside a \<^verbatim>\<open>try\<close>; the environment may make it
  throw.
\<close>

definition respond :: "world \<Rightarrow> functionCall \<Rightarrow> json \<Rightarrow> (app_state, unit) prog" where
  "respond w fc result = (\<lambda>s.
     case session s of
       None \<Rightarrow> ret () s
     | Some h \<Rightarrow>
         bnd tick (\<lambda>n.
           call (Ev_sendToolResponse
                   \<lparr>resp_id = fc_id fc, resp_name = fc_name fc, resp_result = result\<rparr>)
                (sendToolResponse_throws w n)) s)"

text \<open>One iteration of the loop, from the chain to the response.\<close>

definition iteration :: "world \<Rightarrow> bool \<Rightarrow> functionCall \<Rightarrow> (app_state, unit) prog" where
  "iteration w isGmailAuthenticated fc =
     bnd (run_function w isGmailAuthenticated fc) (respond w fc)"

text \<open>
  An iteration awaits the Gmail client when it takes a mail branch with the flag set and
  gets as far as the call of the client, that is, when \<^verbatim>\<open>fc.args\<close> can be read.  The
  handler then gives up control; the requests of the client and the rest of the
  iteration are run when it is resumed (the awaits inside \<^verbatim>\<open>gmail-service.ts\<close> and the
  await of \<open>summarizeEmails\<close> are taken together with the first).
\<close>

definition mail_awaits :: "bool \<Rightarrow> functionCall \<Rightarrow> bool" where
  "mail_awaits isGmailAuthenticated fc \<longleftrightarrow>
     isGmailAuthenticated
     \<and> (fc_name fc = Some ''read_emails'' \<or> fc_name fc = Some ''search_emails'')
     \<and> fc_args fc \<noteq> None"

text \<open>
  \<^verbatim>\<open>for (const fc of functionCalls) { ... }\<close>: the loop runs until its end, the first
  exception or the first await; at an await it returns the continuation.
\<close>

fun tool_loop :: "world \<Rightarrow> bool \<Rightarrow> functionCall list \<Rightarrow> (app_state, continuation option) prog" where
  "tool_loop w a [] = ret None"
| "tool_loop w a (fc # rest) =
     (if mail_awaits a fc then ret (Some (After_mail fc rest))
      else seq (iteration w a fc) (tool_loop w a rest))"

text \<open>
  \<^verbatim>\<open>
  if (message.toolCall) {
    for (const fc of message.toolCall.functionCalls) { ... }
  }
  \<close>
  A \<^verbatim>\<open>toolCall\<close> without \<^verbatim>\<open>functionCalls\<close> is not iterable.
\<close>

definition handle_tool_calls :: "world \<Rightarrow> bool \<Rightarrow> message \<Rightarrow> (app_state, continuation option) prog" where
  "handle_tool_calls w isGmailAuthenticated message =
     (case toolCall message of
        None \<Rightarrow> ret None
      | Some None \<Rightarrow> throw TypeError
      | Some (Some functionCalls) \<Rightarrow> tool_loop w isGmailAuthenticated functionCalls)"

subsection \<open>Transcriptions, interruption and audio output\<close>

text \<open>
  \<^verbatim>\<open>
  if (message.serverContent?.inputTranscription) {
    setCurrentInput(prev => prev + message.serverContent!.inputTranscription!.text);
  }
  if (message.serverContent?.outputTranscription) {
    setCurrentOutput(prev => prev + message.serverContent!.outputTranscription!.text);
  }
  if (message.serverContent?.turnComplete) {
    setCurrentInput('');
    setCurrentOutput('');
  }
  \<close>
  No handler reads the two texts, so that the time at which React runs these updaters
  makes no difference to a handler; they are run at once.
\<close>

definition text_of :: "string option \<Rightarrow> string" where
  "text_of t = (case t of None \<Rightarrow> ''undefined'' | Some x \<Rightarrow> x)"

definition handle_transcriptions :: "message \<Rightarrow> (app_state, unit) prog" where
  "handle_transcriptions message =
     (case serverContent message of
        None \<Rightarrow> ret ()
      | Some sc \<Rightarrow>
          seq (case inputTranscription sc of
                 None \<Rightarrow> ret ()
               | Some t \<Rightarrow> modify (\<lambda>s. s\<lparr>currentInput := currentInput s @ text_of t\<rparr>))
         (seq (case outputTranscription sc of
                 None \<Rightarrow> ret ()
               | Some t \<Rightarrow> modify (\<lambda>s. s\<lparr>currentOutput := currentOutput s @ text_of t\<rparr>))
              (if turnComplete sc
               then modify (\<lambda>s. s\<lparr>currentInput := [], currentOutput := []\<rparr>)
               else ret ())))"

text \<open>
  \<^verbatim>\<open>
  if (message.serverContent?.interrupted) {
    stopAllAudio();
    setIsSpeaking(false);
  }
  \<close>
\<close>

definition handle_interruption :: "world \<Rightarrow> message \<Rightarrow> (app_state, unit) prog" where
  "handle_interruption w message =
     (case serverContent message of
        None \<Rightarrow> ret ()
      | Some sc \<Rightarrow>
          if interrupted sc
          then seq (stopAllAudio w) (modify (\<lambda>s. s\<lparr>isSpeaking := False\<rparr>))
          else ret ())"

text \<open>
  \<^verbatim>\<open>message.serverContent?.modelTurn?.parts[0]?.inlineData?.data\<close>: the access
  \<^verbatim>\<open>.parts[0]\<close> is not guarded, a TypeError when the turn has no \<^verbatim>\<open>parts\<close>.
\<close>

definition audioData_of :: "message \<Rightarrow> error + string option" where
  "audioData_of message =
     (case serverContent message of
        None \<Rightarrow> Inr None
      | Some sc \<Rightarrow>
          (case modelTurn sc of
             None \<Rightarrow> Inr None
           | Some None \<Rightarrow> Inl TypeError
           | Some (Some ps) \<Rightarrow>
               (case ps of
                  [] \<Rightarrow> Inr None
                | p # _ \<Rightarrow> Inr (case inlineData p of None \<Rightarrow> None | Some d \<Rightarrow> d))))"

text \<open>
  \<^verbatim>\<open>
  source.onended = () => {
    sourcesRef.current.delete(source);
    if (sourcesRef.current.size === 0) setIsSpeaking(false);
  };
  \<close>
\<close>

definition onended :: "source_node \<Rightarrow> (app_state, unit) prog" where
  "onended source =
     seq (modify (\<lambda>s. s\<lparr>sources := removeAll source (sources s)\<rparr>))
         (\<lambda>s. if length (sources s) = 0 then modify (\<lambda>s. s\<lparr>isSpeaking := False\<rparr>) s else ret () s)"

text \<open>
  \<^verbatim>\<open>
  const audioData = message.serverContent?.modelTurn?.parts[0]?.inlineData?.data;
  if (audioData && audioContextRef.current) {
    setIsSpeaking(true);
    const { output: ctx } = audioContextRef.current;
    nextStartTimeRef.current = Math.max(nextStartTimeRef.current, ctx.currentTime);
    try {
      const buffer = await decodeAudioData(decode(audioData), ctx, 24000, 1);
      const source = ctx.createBufferSource();
      source.buffer = buffer;
      source.connect(ctx.destination);
      source.onended = ...;
      source.start(nextStartTimeRef.current);
      nextStartTimeRef.current += buffer.duration;
      sourcesRef.current.add(source);
    } catch (err) {
      console.error("Audio decoding error:", err);
    }
  }
  \<close>
  \<open>currentTime\<close> is the reading of \<^verbatim>\<open>ctx.currentTime\<close> that this run of the handler
  makes.  The handler gives up control at the \<^verbatim>\<open>await\<close>, unless the decoding throws
  before there is a promise to await.  \<open>finish_audio\<close> is the rest of the \<^verbatim>\<open>try\<close> block,
  run when the handler is resumed: it reads the cursor again, as the source does.  Of
  the calls of the block only the decoding fails; a new source node is started once.
\<close>

definition finish_audio :: "world \<Rightarrow> string \<Rightarrow> (app_state, unit) prog" where
  "finish_audio w audioData =
     (case decodeAudioData w audioData of
        Buffer duration \<Rightarrow>
          bnd tick (\<lambda>n. (\<lambda>s.
            let source = \<lparr>src_id = n, src_start = nextStartTime s, src_duration = duration\<rparr>
            in seq (emit (Ev_source_start source))
                   (modify (\<lambda>s. s\<lparr>nextStartTime := float_add w (nextStartTime s) duration,
                                   sources := sources s @ [source]\<rparr>)) s))
      | _ \<Rightarrow> throw Rejected)"

text \<open>
  The third part of the handler up to the \<^verbatim>\<open>await\<close>.  Where the handler does not await,
  it goes on with its fourth part, the function calls.
\<close>

definition handle_audio ::
    "world \<Rightarrow> bool \<Rightarrow> real \<Rightarrow> message \<Rightarrow> string option \<Rightarrow> (app_state, continuation option) prog" where
  "handle_audio w isGmailAuthenticated currentTime message audioData = (\<lambda>s.
     case audioData of
       None \<Rightarrow> handle_tool_calls w isGmailAuthenticated message s
     | Some data \<Rightarrow>
         if data \<noteq> [] \<and> audioContext s then
           seq (modify (\<lambda>s. s\<lparr>isSpeaking := True,
                               nextStartTime := max (nextStartTime s) currentTime\<rparr>))
               (case decodeAudioData w data of
                  Decode_throws \<Rightarrow> handle_tool_calls w isGmailAuthenticated message
                | _ \<Rightarrow> ret (Some (After_decode data message))) s
         else handle_tool_calls w isGmailAuthenticated message s)"

text \<open>
  \<^verbatim>\<open>const handleSessionMessage = useCallback(async (message: LiveServerMessage) => { ... })\<close>:
  the run of the handler from the arrival of the message to its end, its first exception
  or its first await.  The result \<open>Some k\<close> is the continuation \<open>k\<close> that the handler has
  left behind, \<open>None\<close> says that it has returned.
\<close>

definition handleSessionMessage ::
    "world \<Rightarrow> bool \<Rightarrow> real \<Rightarrow> message \<Rightarrow> (app_state, continuation option) prog" where
  "handleSessionMessage w isGmailAuthenticated currentTime message =
     seq (handle_transcriptions message)
    (seq (handle_interruption w message)
    (bnd (lift (audioData_of message))
         (handle_audio w isGmailAuthenticated currentTime message)))"

text \<open>
  The run of the handler from the point where it is resumed: after the decoding, the rest
  of the \<^verbatim>\<open>try\<close> block with its \<^verbatim>\<open>catch\<close>, then the function calls; after the Gmail
  client, the rest of the iteration, then the rest of the loop.
\<close>

fun resume :: "world \<Rightarrow> bool \<Rightarrow> continuation \<Rightarrow> (app_state, continuation option) prog" where
  "resume w a (After_decode data message) =
     seq (try_catch (finish_audio w data) (\<lambda>err. ret ()))
         (handle_tool_calls w a message)"
| "resume w a (After_mail fc rest) =
     seq (iteration w a fc) (tool_loop w a rest)"


section \<open>The life cycle of the session and the capture of the microphone (\<^verbatim>\<open>src/App.tsx\<close>)\<close>

text \<open>
  \<^verbatim>\<open>
  const startConnection = async () => {
    try {
      setStatus(SessionStatus.CONNECTING);
      const apiKey = import.meta.env.VITE_API_KEY;
      if (!apiKey || apiKey === 'your_google_gemini_api_key_here' || apiKey.trim() === '') {
        throw new Error('Please add your Google Gemini API key to the .env.local file. ...');
      }
      const ai = new GoogleGenAI({ apiKey });
      const stream = await navigator.mediaDevices.getUserMedia({ audio: true });
      streamRef.current = stream;
      const inputCtx = new AudioContext({ sampleRate: 16000 });
      const outputCtx = new AudioContext({ sampleRate: 24000 });
      audioContextRef.current = { input: inputCtx, output: outputCtx };
      const sessionPromise = ai.live.connect({ ... });
      sessionRef.current = await sessionPromise;
    } catch (err) {
      console.error("Failed to start session:", err);
      setStatus(SessionStatus.ERROR);
    }
  };
  \<close>
  The callbacks given to \<^verbatim>\<open>connect\<close> are the handlers \<open>onopen\<close>, \<open>handleSessionMessage\<close>,
  \<open>onerror\<close> and \<open>onclose\<close> below; the transport runs them as events of their own.
\<close>

definition startConnection :: "world \<Rightarrow> (app_state, unit) prog" where
  "startConnection w =
     try_catch
       (seq (setStatus CONNECTING)
       (bnd (lift (case apiKey w of
                     None \<Rightarrow> Inl (Error ''Please add your Google Gemini API key to the .env.local file. Get one at https://aistudio.google.com/app/apikey'')
                   | Some k \<Rightarrow>
                       if k = [] \<or> k = ''your_google_gemini_api_key_here'' \<or> trim w k = []
                       then Inl (Error ''Please add your Google Gemini API key to the .env.local file. Get one at https://aistudio.google.com/app/apikey'')
                       else Inr k)) (\<lambda>k.
        seq (emit (Ev_new_client k))
       (bnd tick (\<lambda>n.
        seq (emit Ev_getUserMedia)
       (bnd (lift (case getUserMedia w n of None \<Rightarrow> Inl Rejected | Some ts \<Rightarrow> Inr ts)) (\<lambda>tracks.
        seq (modify (\<lambda>s. s\<lparr>stream := Some tracks\<rparr>))
       (seq (emit Ev_new_audio_contexts)
       (seq (modify (\<lambda>s. s\<lparr>audioContext := True\<rparr>))
       (bnd tick (\<lambda>m.
        seq (emit Ev_connect)
       (bnd (lift (case connect w m of None \<Rightarrow> Inl Rejected | Some h \<Rightarrow> Inr h)) (\<lambda>h.
        modify (\<lambda>s. s\<lparr>session := Some h\<rparr>))))))))))))))
       (\<lambda>err. setStatus ERROR)"

text \<open>
  \<^verbatim>\<open>
  onopen: () => {
    setStatus(SessionStatus.CONNECTED);
    const source = inputCtx.createMediaStreamSource(stream);
    const scriptProcessor = inputCtx.createScriptProcessor(4096, 1, 1);
    scriptProcessor.onaudioprocess = (e) => { ... };
    source.connect(scriptProcessor);
    scriptProcessor.connect(inputCtx.destination);
    audioNodesRef.current = { source, processor: scriptProcessor };
  },
  onerror: (e) => { cleanupAudioNodes(); setStatus(SessionStatus.ERROR); },
  onclose: () => { cleanupAudioNodes(); stopAllAudio(); setStatus(SessionStatus.IDLE); }
  \<close>
\<close>

definition onopen :: "(app_state, unit) prog" where
  "onopen =
     seq (setStatus CONNECTED)
    (bnd tick (\<lambda>source.
     bnd tick (\<lambda>scriptProcessor.
     modify (\<lambda>s. s\<lparr>audioNodes := Some \<lparr>node_source = source, node_processor = scriptProcessor\<rparr>\<rparr>))))"

definition onerror :: "world \<Rightarrow> (app_state, unit) prog" where
  "onerror w = seq (cleanupAudioNodes w) (setStatus ERROR)"

definition onclose :: "world \<Rightarrow> (app_state, unit) prog" where
  "onclose w = seq (cleanupAudioNodes w) (seq (stopAllAudio w) (setStatus IDLE))"

text \<open>
  \<^verbatim>\<open>
  scriptProcessor.onaudioprocess = (e) => {
    // Only send if session is still active
    if (sessionRef.current) {
      const inputData = e.inputBuffer.getChannelData(0);
      const pcmBlob = createBlob(inputData);
      sessionPromise.then(s => s?.sendRealtimeInput({ media: pcmBlob })).catch(() => { });
    }
  };
  \<close>
  \<open>sessionPromise\<close> is the promise of \<^verbatim>\<open>connect\<close> that the callback has closed over.  It
  has settled when \<^verbatim>\<open>sessionRef.current\<close> is set, which \<^verbatim>\<open>startConnection\<close> does after
  awaiting it: it is fulfilled with a session (or with nothing), or it has failed.
\<close>

datatype 'a settled = Fulfilled 'a | Failed

definition onaudioprocess ::
    "world \<Rightarrow> session_handle option settled \<Rightarrow> audio_frame \<Rightarrow> (app_state, unit) prog" where
  "onaudioprocess w sessionPromise inputData = (\<lambda>s.
     case session s of
       None \<Rightarrow> ret () s
     | Some _ \<Rightarrow>
         bnd (lift (createBlob w inputData)) (\<lambda>pcmBlob.
         try_catch
           (case sessionPromise of
              Failed \<Rightarrow> throw Rejected
            | Fulfilled None \<Rightarrow> ret ()
            | Fulfilled (Some h) \<Rightarrow>
                bnd tick (\<lambda>n. call (Ev_sendRealtimeInput h pcmBlob) (send_realtime_throws w n)))
           (\<lambda>e. ret ())) s)"

text \<open>
  The audio engine calls \<^verbatim>\<open>onaudioprocess\<close> once for each frame; an exception of one call
  does not keep it from making the next.
\<close>

fun capture :: "world \<Rightarrow> session_handle option settled \<Rightarrow> audio_frame list \<Rightarrow> app_state \<Rightarrow> app_state" where
  "capture w p [] s = s"
| "capture w p (f # fs) s = capture w p fs (snd (onaudioprocess w p f s))"


text \<open>
  \<^verbatim>\<open>
  const handleGmailAuth = useCallback((accessToken: string) => {
    gmailService.setAccessToken(accessToken);
    setIsGmailAuthenticated(true);
  }, []);
  \<close>
\<close>

definition handleGmailAuth :: "string \<Rightarrow> (app_state, unit) prog" where
  "handleGmailAuth token =
     seq (setAccessToken token) (modify (\<lambda>s. s\<lparr>gmailAuthenticated := True\<rparr>))"


section \<open>The operations of the program\<close>

text \<open>
  The events the program reacts to: a message of the session, the resumption of a
  handler that awaits, a render of the component, the start and the end request of the
  user, the callbacks of the transport, a tick of the capture, the end of the playback
  of a source and the sign-in to Gmail.  \<open>run_op\<close> is the state after the handler of the
  event has run, whether it returned, threw or gave up control at an await; in the last
  case its continuation has joined the pending ones.  Only a pending continuation can
  be resumed, and it is resumed once.
\<close>

datatype operation =
    Op_message real message
  | Op_resume continuation
  | Op_render
  | Op_start
  | Op_end
  | Op_open
  | Op_error
  | Op_close
  | Op_audioprocess "session_handle option settled" audio_frame
  | Op_ended source_node
  | Op_gmail_auth string

definition settle :: "(error + continuation option) \<times> app_state \<Rightarrow> app_state" where
  "settle r =
     (case r of
        (Inr (Some k), s) \<Rightarrow> s\<lparr>pending := pending s @ [k]\<rparr>
      | (_, s) \<Rightarrow> s)"

fun run_op :: "world \<Rightarrow> bool \<Rightarrow> operation \<Rightarrow> app_state \<Rightarrow> app_state" where
  "run_op w a (Op_message t m) s = settle (handleSessionMessage w a t m s)"
| "run_op w a (Op_resume k) s =
     (if k \<in> set (pending s)
      then settle (resume w a k (s\<lparr>pending := remove1 k (pending s)\<rparr>))
      else s)"
| "run_op w a Op_render s = snd (render w s)"
| "run_op w a Op_start s = snd (startConnection w s)"
| "run_op w a Op_end s = snd (endConnection w s)"
| "run_op w a Op_open s = snd (onopen s)"
| "run_op w a Op_error s = snd (onerror w s)"
| "run_op w a Op_close s = snd (onclose w s)"
| "run_op w a (Op_audioprocess p f) s = snd (onaudioprocess w p f s)"
| "run_op w a (Op_ended source) s = snd (onended source s)"
| "run_op w a (Op_gmail_auth token) s = snd (handleGmailAuth token s)"

text \<open>The operations of a list, one after the other, in any order the event loop takes them.\<close>

fun run_ops :: "world \<Rightarrow> bool \<Rightarrow> operation list \<Rightarrow> app_state \<Rightarrow> app_state" where
  "run_ops w a [] s = s"
| "run_ops w a (op # ops) s = run_ops w a ops (run_op w a op s)"

text \<open>Whether a message carries the interruption signal.\<close>

definition interrupted_of :: "message \<Rightarrow> bool" where
  "interrupted_of m = (case serverContent m of None \<Rightarrow> False | Some sc \<Rightarrow> interrupted sc)"

text \<open>
  The operations whose handler calls \<open>stopAllAudio\<close>.  The run of a handler from an await
  on does not call it.
\<close>

fun calls_stopAllAudio :: "operation \<Rightarrow> bool" where
  "calls_stopAllAudio (Op_message t m) = interrupted_of m"
| "calls_stopAllAudio Op_end = True"
| "calls_stopAllAudio Op_close = True"
| "calls_stopAllAudio op = False"

text \<open>
  The schedule in which the handler of a message runs to its end with no other event in
  between: the message, then the resumption of each continuation that its handler can
  leave behind, in the order of the source.  A continuation of the list that the handler
  has not left behind is not pending, and its resumption does nothing.  \<open>run_messages\<close>
  is this schedule for the messages of a list, each read at its time of the device
  clock.
\<close>

fun mail_conts :: "bool \<Rightarrow> functionCall list \<Rightarrow> continuation list" where
  "mail_conts a [] = []"
| "mail_conts a (fc # rest) =
     (if mail_awaits a fc then [After_mail fc rest] else []) @ mail_conts a rest"

definition audio_conts :: "message \<Rightarrow> continuation list" where
  "audio_conts m = (case audioData_of m of Inr (Some data) \<Rightarrow> [After_decode data m] | _ \<Rightarrow> [])"

definition tool_conts :: "bool \<Rightarrow> message \<Rightarrow> continuation list" where
  "tool_conts a m = (case toolCall m of Some (Some calls) \<Rightarrow> mail_conts a calls | _ \<Rightarrow> [])"

definition continuations :: "bool \<Rightarrow> message \<Rightarrow> continuation list" where
  "continuations a m = audio_conts m @ tool_conts a m"

definition to_completion :: "bool \<Rightarrow> real \<Rightarrow> message \<Rightarrow> operation list" where
  "to_completion a t m = Op_message t m # map Op_resume (continuations a m)"

definition run_messages :: "bool \<Rightarrow> (real \<times> message) list \<Rightarrow> operation list" where
  "run_messages a ms = concat (map (\<lambda>tm. to_completion a (fst tm) (snd tm)) ms)"


section \<open>Observations on a trace\<close>

text \<open>The sources started, their start times, the tool responses sent, the requests sent to
  Gmail and the audio blobs sent to the session, in order.\<close>

fun started :: "event list \<Rightarrow> source_node list" where
  "started [] = []"
| "started (Ev_source_start x # evs) = x # started evs"
| "started (ev # evs) = started evs"

definition starts :: "event list \<Rightarrow> real list" where
  "starts evs = map src_start (started evs)"

fun tool_responses :: "event list \<Rightarrow> function_response list" where
  "tool_responses [] = []"
| "tool_responses (Ev_sendToolResponse r # evs) = r # tool_responses evs"
| "tool_responses (ev # evs) = tool_responses evs"

fun fetches :: "event list \<Rightarrow> request list" where
  "fetches [] = []"
| "fetches (Ev_fetch token req # evs) = req # fetches evs"
| "fetches (ev # evs) = fetches evs"

fun realtime_inputs :: "event list \<Rightarrow> (session_handle \<times> json) list" where
  "realtime_inputs [] = []"
| "realtime_inputs (Ev_sendRealtimeInput h b # evs) = (h, b) # realtime_inputs evs"
| "realtime_inputs (ev # evs) = realtime_inputs evs"

text \<open>The events that have been added to the trace of \<open>s\<close> when the program is in \<open>s'\<close>.\<close>

definition new_events :: "app_state \<Rightarrow> app_state \<Rightarrow> event list" where
  "new_events s s' = drop (length (trace s)) (trace s')"

text \<open>
  The arrival of an audio chunk: the reading of the device clock and what the decoder
  makes of the chunk, for a message that has a chunk (one that passes the test
  \<^verbatim>\<open>if (audioData && ...)\<close> while the output context exists).  A message whose audio data
  cannot be read, or that has none, is no arrival.  The arrivals of a list of messages,
  in order, and the durations of the buffers of those that decode.
\<close>

definition arrival :: "world \<Rightarrow> real \<times> message \<Rightarrow> (real \<times> decode_outcome) option" where
  "arrival w tm =
     (case audioData_of (snd tm) of
        Inr (Some data) \<Rightarrow> if data = [] then None else Some (fst tm, decodeAudioData w data)
      | _ \<Rightarrow> None)"

fun arrivals :: "world \<Rightarrow> (real \<times> message) list \<Rightarrow> (real \<times> decode_outcome) list" where
  "arrivals w [] = []"
| "arrivals w (tm # ms) =
     (case arrival w tm of None \<Rightarrow> arrivals w ms | Some x \<Rightarrow> x # arrivals w ms)"

fun buffers :: "(real \<times> decode_outcome) list \<Rightarrow> real list" where
  "buffers [] = []"
| "buffers ((t, Buffer d) # xs) = d # buffers xs"
| "buffers (x # xs) = buffers xs"

text \<open>
  No source of a list starts before the end of the one before it, the end being the
  cursor that the program has computed for it, \<^verbatim>\<open>start + duration\<close> in the arithmetic of
  the program.
\<close>

fun no_overlap :: "world \<Rightarrow> source_node list \<Rightarrow> bool" where
  "no_overlap w (x # y # xs) \<longleftrightarrow>
     float_add w (src_start x) (src_duration x) \<le> src_start y \<and> no_overlap w (y # xs)"
| "no_overlap w xs \<longleftrightarrow> True"



text \<open>
  The texts under the three keys are those the program writes itself: none, the empty
  text or the text of an array (of any JSON value for the memories, which are only read).
\<close>

fun array_text :: "stored_text option \<Rightarrow> bool" where
  "array_text None = True"
| "array_text (Some Text_empty) = True"
| "array_text (Some (Text_json (JArr xs))) = True"
| "array_text t = False"

definition storage_ok :: "app_state \<Rightarrow> bool" where
  "storage_ok s \<longleftrightarrow>
     localStorage s MEMORY_KEY \<noteq> Some Text_garbage
     \<and> array_text (localStorage s DRAFTS_KEY)
     \<and> array_text (localStorage s TASKS_KEY)"


section \<open>Notions used in the statements and in the proofs\<close>

text \<open>
  The call of the Gmail client that a mail operation of the dispatcher makes, with the
  reads of \<^verbatim>\<open>fc.args\<close> that come before it.
\<close>

definition mail_request :: "world \<Rightarrow> functionCall \<Rightarrow> (app_state, email list) prog" where
  "mail_request w fc =
     bnd (lift (maxResults_of fc)) (\<lambda>maxResults.
       if fc_name fc = Some ''read_emails'' then getUnreadEmails w maxResults
       else bnd (lift (arg fc ''query'')) (\<lambda>query. searchEmails w query maxResults))"

text \<open>
  The cursor after an arrival, and the start times that a cursor \<open>c\<close> gives to the
  arrivals of a list when each is handled to its end before the next: an arrival takes
  the cursor to the later of the cursor and its reading of the clock; a chunk that
  decodes starts there and moves the cursor by its duration.  The proofs show that the
  handler computes them.
\<close>

definition advance :: "world \<Rightarrow> real \<Rightarrow> real \<times> decode_outcome \<Rightarrow> real" where
  "advance w c x =
     (case snd x of Buffer d \<Rightarrow> float_add w (max c (fst x)) d | _ \<Rightarrow> max c (fst x))"

fun schedule :: "world \<Rightarrow> real \<Rightarrow> (real \<times> decode_outcome) list \<Rightarrow> real list" where
  "schedule w c [] = []"
| "schedule w c (x # xs) =
     (case snd x of Buffer d \<Rightarrow> [max c (fst x)] | _ \<Rightarrow> []) @ schedule w (advance w c x) xs"

text \<open>
  The handler of a message run to its end at once, every promise it awaits settling
  before anything else happens: the loop over the function calls, the fourth part, the
  third part and the whole handler.  The proofs show that the schedule \<open>to_completion\<close>
  computes the same state.
\<close>

definition complete_tools :: "world \<Rightarrow> bool \<Rightarrow> message \<Rightarrow> (app_state, unit) prog" where
  "complete_tools w a m =
     (case toolCall m of
        None \<Rightarrow> ret ()
      | Some None \<Rightarrow> throw TypeError
      | Some (Some calls) \<Rightarrow> for_each (iteration w a) calls)"

definition complete_audio :: "world \<Rightarrow> real \<Rightarrow> string option \<Rightarrow> (app_state, unit) prog" where
  "complete_audio w t audioData = (\<lambda>s.
     case audioData of
       None \<Rightarrow> ret () s
     | Some data \<Rightarrow>
         if data \<noteq> [] \<and> audioContext s then
           seq (modify (\<lambda>s. s\<lparr>isSpeaking := True, nextStartTime := max (nextStartTime s) t\<rparr>))
               (try_catch (finish_audio w data) (\<lambda>err. ret ())) s
         else ret () s)"

definition complete_message :: "world \<Rightarrow> bool \<Rightarrow> real \<Rightarrow> message \<Rightarrow> (app_state, unit) prog" where
  "complete_message w a t m =
     seq (handle_transcriptions m)
    (seq (handle_interruption w m)
    (bnd (lift (audioData_of m)) (\<lambda>audioData.
     seq (complete_audio w t audioData)
         (complete_tools w a m))))"

text \<open>The state in which the handler of a message reads the audio data of the message.\<close>

definition after_signals :: "world \<Rightarrow> message \<Rightarrow> app_state \<Rightarrow> app_state" where
  "after_signals w m s = snd (handle_interruption w m (snd (handle_transcriptions m s)))"

text \<open>
  An invariant of a handler holds after the handler when it held before, whether the
  handler returns or throws.  A handler keeps the frame \<open>frame P s\<close> when it leaves the
  references of the session, of the scheduler and of the capture and the pending
  continuations as they are in \<open>s\<close>, keeps the stored texts well formed and adds to the
  trace only events that satisfy \<open>P\<close>.  A handler is quiet when it starts no source and
  does not take the cursor back.
\<close>

definition invariant :: "('s \<Rightarrow> bool) \<Rightarrow> ('s, 'a) prog \<Rightarrow> bool" where
  "invariant I m \<longleftrightarrow> (\<forall>s. I s \<longrightarrow> I (snd (m s)))"

fun is_fetch :: "event \<Rightarrow> bool" where
  "is_fetch (Ev_fetch t r) = True"
| "is_fetch ev = False"

fun is_response :: "event \<Rightarrow> bool" where
  "is_response (Ev_sendToolResponse r) = True"
| "is_response ev = False"

definition is_io :: "event \<Rightarrow> bool" where
  "is_io ev \<longleftrightarrow> is_fetch ev \<or> is_response ev"

definition frame :: "(event \<Rightarrow> bool) \<Rightarrow> app_state \<Rightarrow> app_state \<Rightarrow> bool" where
  "frame P s s' \<longleftrightarrow>
     status s' = status s \<and> isSpeaking s' = isSpeaking s \<and> currentInput s' = currentInput s
     \<and> currentOutput s' = currentOutput s \<and> gmailAuthenticated s' = gmailAuthenticated s
     \<and> audioContext s' = audioContext s \<and> nextStartTime s' = nextStartTime s
     \<and> sources s' = sources s \<and> session s' = session s \<and> stream s' = stream s
     \<and> audioNodes s' = audioNodes s \<and> accessToken s' = accessToken s
     \<and> pending s' = pending s
     \<and> (storage_ok s \<longrightarrow> storage_ok s')
     \<and> (\<exists>evs. trace s' = trace s @ evs \<and> (\<forall>ev\<in>set evs. P ev))"

definition quiet :: "app_state \<Rightarrow> app_state \<Rightarrow> bool" where
  "quiet s s' \<longleftrightarrow>
     nextStartTime s \<le> nextStartTime s'
     \<and> (\<exists>evs. trace s' = trace s @ evs \<and> started evs = [])"



section \<open>Concrete environments and states\<close>

text \<open>
  The state of the component when it is mounted with an empty \<^verbatim>\<open>localStorage\<close> (the
  initial values of its \<^verbatim>\<open>useState\<close> and \<^verbatim>\<open>useRef\<close> hooks), and an environment in which
  no call throws, the network does not answer, every buffer lasts one second, the cursor
  is moved by the addition of the reals, React runs an updater at once and the string
  builtins leave their argument as it is.
\<close>

definition initial_state :: app_state where
  "initial_state =
     \<lparr>status = IDLE, isSpeaking = False, memories = [], currentInput = [], currentOutput = [],
      tasks = JArr [], drafts = JArr [], emails = [], gmailAuthenticated = False,
      audioContext = False, nextStartTime = 0, sources = [], session = None, stream = None,
      audioNodes = None, localStorage = (\<lambda>k. None), accessToken = None,
      pending = [], queued_memories = [], ticks = 0, trace = []\<rparr>"

definition quiet_world :: world where
  "quiet_world =
     \<lparr>apiKey = Some ''key'', disconnect_throws = (\<lambda>n. False), stop_throws = (\<lambda>x. False),
      close_throws = (\<lambda>h. False), track_stop_throws = (\<lambda>t. False),
      send_realtime_throws = (\<lambda>n. False), sendToolResponse_throws = (\<lambda>n. False),
      runs_updater_at_once = (\<lambda>n. True), getUserMedia = (\<lambda>n. Some [0]),
      connect = (\<lambda>n. Some 1), fetch = (\<lambda>n token req. None), randomUUID = (\<lambda>n. ''uuid''),
      dateNow = (\<lambda>n. 0), decodeAudioData = (\<lambda>d. Buffer 1), float_add = (\<lambda>x y. x + y),
      createBlob = (\<lambda>f. Inr (JArr (map JNum f))),
      atob = (\<lambda>d. Some d), toLowerCase = (\<lambda>x. x), trim = (\<lambda>x. x),
      encodeURIComponent = (\<lambda>v. case v of JStr q \<Rightarrow> Some q | _ \<Rightarrow> None),
      toStr = (\<lambda>v. ''?''), replace_angle = (\<lambda>x. x)\<rparr>"

text \<open>A connected session with a microphone track, capture nodes and one scheduled source.\<close>

definition playing_source :: source_node where
  "playing_source = \<lparr>src_id = 9, src_start = 0, src_duration = 5\<rparr>"

definition connected_state :: app_state where
  "connected_state =
     initial_state\<lparr>status := CONNECTED, isSpeaking := True, audioContext := True,
                   nextStartTime := 5, sources := [playing_source], session := Some 1,
                   stream := Some [7], audioNodes := Some \<lparr>node_source = 2, node_processor = 3\<rparr>\<rparr>"

text \<open>An environment in which every call of a browser or transport object throws.\<close>

definition hostile_world :: world where
  "hostile_world =
     quiet_world\<lparr>disconnect_throws := (\<lambda>n. True), stop_throws := (\<lambda>x. True),
                 close_throws := (\<lambda>h. True), track_stop_throws := (\<lambda>t. True),
                 send_realtime_throws := (\<lambda>n. True), sendToolResponse_throws := (\<lambda>n. True)\<rparr>"


text \<open>
  A mailbox with one message, whose body has 600 characters, and a mailbox whose list
  response has no \<^verbatim>\<open>messages\<close> field; the state of a user who has signed in to Gmail.
\<close>

definition long_mail :: json where
  "long_mail =
     JObj [(''id'', JStr ''m1''), (''snippet'', JStr ''hi''), (''labelIds'', JArr [JStr ''UNREAD'']),
           (''payload'', JObj [
              (''headers'', JArr [JObj [(''name'', JStr ''From''),
                                        (''value'', JStr ''Ann <ann@example.org>'')],
                                  JObj [(''name'', JStr ''Subject''), (''value'', JStr ''Hello'')]]),
              (''body'', JObj [(''data'', JStr (replicate 600 (CHR ''a'')))])])]"

definition long_mail_parsed :: email where
  "long_mail_parsed =
     \<lparr>email_id = JStr ''m1'', email_from = JStr ''Ann <ann@example.org>'',
      email_subject = JStr ''Hello'', email_snippet = JStr ''hi'',
      email_body = replicate 500 (CHR ''a''), email_date = JStr [], email_isUnread = True\<rparr>"

definition mail_world :: world where
  "mail_world =
     quiet_world\<lparr>fetch := (\<lambda>n token req.
        case req of
          List_messages q mr \<Rightarrow> Some (JObj [(''messages'', JArr [JObj [(''id'', JStr ''m1'')]])])
        | Get_message i \<Rightarrow> Some long_mail)\<rparr>"

definition empty_inbox_world :: world where
  "empty_inbox_world =
     quiet_world\<lparr>fetch := (\<lambda>n token req. Some (JObj [(''resultSizeEstimate'', JNum 0)]))\<rparr>"

definition signed_in_state :: app_state where
  "signed_in_state = initial_state\<lparr>accessToken := Some ''token'', gmailAuthenticated := True\<rparr>"


text \<open>
  Messages that carry one audio chunk, the interruption signal or a batch of function
  calls, and nothing else; the call of the scenario of the specification, a call of an
  unknown name, a call that reads the mail and a call of \<^verbatim>\<open>create_task\<close> without
  \<^verbatim>\<open>args\<close>; three chunks of which none arrives after the end of the one before it.
\<close>

definition audio_message :: "string \<Rightarrow> message" where
  "audio_message data =
     \<lparr>serverContent = Some \<lparr>inputTranscription = None, outputTranscription = None,
                             turnComplete = False, interrupted = False,
                             modelTurn = Some (Some [\<lparr>inlineData = Some (Some data)\<rparr>])\<rparr>,
      toolCall = None\<rparr>"

definition interrupt_message :: message where
  "interrupt_message =
     \<lparr>serverContent = Some \<lparr>inputTranscription = None, outputTranscription = None,
                             turnComplete = False, interrupted = True, modelTurn = None\<rparr>,
      toolCall = None\<rparr>"

definition tool_message :: "functionCall list \<Rightarrow> message" where
  "tool_message calls = \<lparr>serverContent = None, toolCall = Some (Some calls)\<rparr>"

definition buy_milk :: functionCall where
  "buy_milk = \<lparr>fc_id = Some ''a'', fc_name = Some ''create_task'',
               fc_args = Some [(''title'', JStr ''Buy milk'')]\<rparr>"

definition dance :: functionCall where
  "dance = \<lparr>fc_id = Some ''b'', fc_name = Some ''dance'', fc_args = Some []\<rparr>"

definition read_call :: functionCall where
  "read_call = \<lparr>fc_id = Some ''c'', fc_name = Some ''read_emails'', fc_args = Some []\<rparr>"

definition bare_task :: functionCall where
  "bare_task = \<lparr>fc_id = Some ''d'', fc_name = Some ''create_task'', fc_args = None\<rparr>"

text \<open>
  A call that saves a memory and a call that reads the memories, and an environment in
  which React runs an updater only when it next renders the component.
\<close>

definition remember :: functionCall where
  "remember = \<lparr>fc_id = Some ''e'', fc_name = Some ''save_memory'',
               fc_args = Some [(''content'', JStr ''tea'')]\<rparr>"

definition recall :: functionCall where
  "recall = \<lparr>fc_id = Some ''f'', fc_name = Some ''get_memories'', fc_args = None\<rparr>"

definition lazy_world :: world where
  "lazy_world = quiet_world\<lparr>runs_updater_at_once := (\<lambda>n. False)\<rparr>"

definition on_time_chunks :: "(real \<times> message) list" where
  "on_time_chunks = [(0, audio_message ''a''), (11/2, audio_message ''b''), (7, audio_message ''c'')]"


section \<open>Properties of the output timeline and of the cleanup\<close>

lemmas prog_defs =
  ret_def throw_def bnd_def seq_def try_catch_def modify_def emit_def call_def lift_def

lemma stop_loop:
  "for_each (\<lambda>source. try_catch (call (Ev_source_stop source) (stop_throws w source))
                                  (\<lambda>e. ret ())) xs s
     = (Inr (), s\<lparr>trace := trace s @ map Ev_source_stop xs\<rparr>)"
  by (induction xs arbitrary: s) (simp_all add: prog_defs)

lemma stopAllAudio_eq:
  "stopAllAudio w s =
     (Inr (), s\<lparr>sources := [], nextStartTime := 0,
                trace := trace s @ map Ev_source_stop (sources s)\<rparr>)"
  unfolding stopAllAudio_def stop_loop by (simp add: prog_defs)

text \<open>
  C4.  \<open>stopAllAudio\<close> returns without an exception for every set of active sources and
  every environment, also one in which \<open>stop\<close> throws for each source (a source whose
  playback has ended among them); after it the set of active sources is empty and the
  cursor is 0.
\<close>

theorem stopAllAudio_never_throws:
  "fst (stopAllAudio w s) = Inr ()
   \<and> sources (snd (stopAllAudio w s)) = []
   \<and> nextStartTime (snd (stopAllAudio w s)) = 0"
  by (simp add: stopAllAudio_eq)

lemma cleanupAudioNodes_eq:
  "cleanupAudioNodes w s =
     (Inr (), s\<lparr>audioNodes := None,
                trace := trace s @
                  (case audioNodes s of
                     None \<Rightarrow> []
                   | Some n \<Rightarrow>
                       if disconnect_throws w (node_processor n)
                       then [Ev_disconnect (node_processor n)]
                       else [Ev_disconnect (node_processor n), Ev_disconnect (node_source n)])\<rparr>)"
  by (cases "audioNodes s") (simp_all add: cleanupAudioNodes_def prog_defs)

lemma track_loop:
  "\<forall>t\<in>set ts. \<not> track_stop_throws w t \<Longrightarrow>
   for_each (\<lambda>t. call (Ev_track_stop t) (track_stop_throws w t)) ts s
     = (Inr (), s\<lparr>trace := trace s @ map Ev_track_stop ts\<rparr>)"
  by (induction ts arbitrary: s) (simp_all add: prog_defs)

lemma close_session_eq:
  "\<forall>h. session s = Some h \<longrightarrow> \<not> close_throws w h \<Longrightarrow>
   close_session w s =
     (Inr (), s\<lparr>session := None,
                trace := trace s @ (case session s of None \<Rightarrow> [] | Some h \<Rightarrow> [Ev_session_close h])\<rparr>)"
  by (cases "session s") (simp_all add: close_session_def prog_defs)

lemma release_stream_eq:
  "\<forall>ts. stream s = Some ts \<longrightarrow> (\<forall>t\<in>set ts. \<not> track_stop_throws w t) \<Longrightarrow>
   release_stream w s =
     (Inr (), s\<lparr>stream := None,
                trace := trace s @ (case stream s of None \<Rightarrow> [] | Some ts \<Rightarrow> map Ev_track_stop ts)\<rparr>)"
  unfolding release_stream_def
  by (cases "stream s") (simp_all add: track_loop seq_def bnd_def modify_def ret_def)

text \<open>
  C5, as the code has it.  When neither \<open>close\<close> of the session nor \<open>stop\<close> of a track
  throws, \<open>endConnection\<close> returns and has made, in this order, the calls that disconnect
  the capture nodes, the call that closes the session, the calls that stop the tracks
  of the microphone and the calls that stop the active sources, and has then set the
  status to IDLE; the references and the set of sources are cleared and the cursor is
  0.  This holds whichever of the \<open>disconnect\<close> and \<open>source.stop\<close> calls throw: these
  two steps are guarded by a \<^verbatim>\<open>try\<close>.
\<close>

theorem endConnection_steps_in_order:
  assumes "\<forall>h. session s = Some h \<longrightarrow> \<not> close_throws w h"
    and "\<forall>ts. stream s = Some ts \<longrightarrow> (\<forall>t\<in>set ts. \<not> track_stop_throws w t)"
  shows "endConnection w s =
     (Inr (),
      s\<lparr>status := IDLE, nextStartTime := 0, sources := [], session := None, stream := None,
        audioNodes := None,
        trace := trace s
          @ (case audioNodes s of
               None \<Rightarrow> []
             | Some n \<Rightarrow>
                 if disconnect_throws w (node_processor n)
                 then [Ev_disconnect (node_processor n)]
                 else [Ev_disconnect (node_processor n), Ev_disconnect (node_source n)])
          @ (case session s of None \<Rightarrow> [] | Some h \<Rightarrow> [Ev_session_close h])
          @ (case stream s of None \<Rightarrow> [] | Some ts \<Rightarrow> map Ev_track_stop ts)
          @ map Ev_source_stop (sources s)
          @ [Ev_setStatus IDLE]\<rparr>)"
  using assms
  by (simp add: endConnection_def seq_def[of "cleanupAudioNodes w"] seq_def[of "close_session w"]
      seq_def[of "release_stream w"] seq_def[of "stopAllAudio w"] bnd_def cleanupAudioNodes_eq
      close_session_eq release_stream_eq stopAllAudio_eq setStatus_def modify_def emit_def seq_def)

text \<open>
  The theorem at a connected session, in an environment where \<open>disconnect\<close> and
  \<open>source.stop\<close> throw and \<open>close\<close> and \<open>track.stop\<close> do not.
\<close>

theorem endConnection_steps_in_order_witness:
  "session connected_state = Some 1
   \<and> \<not> close_throws (quiet_world\<lparr>disconnect_throws := (\<lambda>n. True), stop_throws := (\<lambda>x. True)\<rparr>) 1
   \<and> stream connected_state = Some [7]
   \<and> \<not> track_stop_throws (quiet_world\<lparr>disconnect_throws := (\<lambda>n. True), stop_throws := (\<lambda>x. True)\<rparr>) 7
   \<and> fst (endConnection (quiet_world\<lparr>disconnect_throws := (\<lambda>n. True), stop_throws := (\<lambda>x. True)\<rparr>)
            connected_state) = Inr ()
   \<and> trace (snd (endConnection
              (quiet_world\<lparr>disconnect_throws := (\<lambda>n. True), stop_throws := (\<lambda>x. True)\<rparr>)
              connected_state))
       = [Ev_disconnect 3, Ev_session_close 1, Ev_track_stop 7, Ev_source_stop playing_source,
          Ev_setStatus IDLE]"
proof -
  let ?w = "quiet_world\<lparr>disconnect_throws := (\<lambda>n. True), stop_throws := (\<lambda>x. True)\<rparr>"
  have h1: "\<forall>h. session connected_state = Some h \<longrightarrow> \<not> close_throws ?w h"
    by (simp add: quiet_world_def)
  have h2: "\<forall>ts. stream connected_state = Some ts \<longrightarrow> (\<forall>t\<in>set ts. \<not> track_stop_throws ?w t)"
    by (simp add: quiet_world_def)
  show ?thesis
    using endConnection_steps_in_order [OF h1 h2]
    by (simp add: connected_state_def initial_state_def quiet_world_def)
qed

text \<open>
  C5, as the claim states it, fails: \<open>close\<close> of the session and \<open>stop\<close> of a track are
  not guarded.  When \<open>close\<close> throws, \<open>endConnection\<close> ends by that exception after the
  call; no track is stopped, no source is stopped, the stream and the sources stay, the
  cursor and the status are unchanged.
\<close>

theorem endConnection_close_throws_counterexample:
  "fst (endConnection hostile_world connected_state) = Inl DOMException
   \<and> trace (snd (endConnection hostile_world connected_state))
       = [Ev_disconnect 3, Ev_session_close 1]
   \<and> stream (snd (endConnection hostile_world connected_state)) = Some [7]
   \<and> sources (snd (endConnection hostile_world connected_state)) = [playing_source]
   \<and> nextStartTime (snd (endConnection hostile_world connected_state)) = 5
   \<and> status (snd (endConnection hostile_world connected_state)) = CONNECTED"
  by (simp add: endConnection_def cleanupAudioNodes_def close_session_def prog_defs
      hostile_world_def quiet_world_def connected_state_def initial_state_def)


section \<open>Properties of the start of a session and of the capture\<close>

text \<open>
  C6.  When the API key is missing, empty, the placeholder of the template or blank,
  \<open>startConnection\<close> sets the status to CONNECTING, then to ERROR, and does nothing
  else: no client is created, \<open>getUserMedia\<close> is not called, no stream is stored.
\<close>

theorem startConnection_invalid_key:
  assumes "apiKey w = None \<or> apiKey w = Some []
           \<or> apiKey w = Some ''your_google_gemini_api_key_here''
           \<or> (\<exists>k. apiKey w = Some k \<and> trim w k = [])"
  shows "startConnection w s =
           (Inr (), s\<lparr>status := ERROR,
                      trace := trace s @ [Ev_setStatus CONNECTING, Ev_setStatus ERROR]\<rparr>)"
  using assms by (auto simp add: startConnection_def setStatus_def prog_defs)

theorem startConnection_invalid_key_witness:
  "apiKey (quiet_world\<lparr>apiKey := Some ''your_google_gemini_api_key_here''\<rparr>)
     = Some ''your_google_gemini_api_key_here''
   \<and> fst (startConnection (quiet_world\<lparr>apiKey := Some ''your_google_gemini_api_key_here''\<rparr>)
            initial_state) = Inr ()
   \<and> trace (snd (startConnection (quiet_world\<lparr>apiKey := Some ''your_google_gemini_api_key_here''\<rparr>)
            initial_state)) = [Ev_setStatus CONNECTING, Ev_setStatus ERROR]
   \<and> status (snd (startConnection (quiet_world\<lparr>apiKey := Some ''your_google_gemini_api_key_here''\<rparr>)
            initial_state)) = ERROR
   \<and> stream (snd (startConnection (quiet_world\<lparr>apiKey := Some ''your_google_gemini_api_key_here''\<rparr>)
            initial_state)) = None"
proof -
  let ?w = "quiet_world\<lparr>apiKey := Some ''your_google_gemini_api_key_here''\<rparr>"
  have k: "apiKey ?w = Some ''your_google_gemini_api_key_here''" by simp
  then have "apiKey ?w = None \<or> apiKey ?w = Some []
      \<or> apiKey ?w = Some ''your_google_gemini_api_key_here''
      \<or> (\<exists>k. apiKey ?w = Some k \<and> trim ?w k = [])" by blast
  from startConnection_invalid_key [OF this, of initial_state] k show ?thesis
    by (simp add: initial_state_def)
qed

lemma onaudioprocess_no_session:
  "session s = None \<Longrightarrow> onaudioprocess w p f s = (Inr (), s)"
  by (simp add: onaudioprocess_def prog_defs)

lemma onaudioprocess_session:
  "session s = Some h' \<Longrightarrow> createBlob w f = Inr blob \<Longrightarrow>
   onaudioprocess w (Fulfilled (Some h)) f s =
     (Inr (), s\<lparr>ticks := Suc (ticks s), trace := trace s @ [Ev_sendRealtimeInput h blob]\<rparr>)"
  by (simp add: onaudioprocess_def prog_defs tick_def)

lemma onaudioprocess_blob_fails:
  "session s = Some h' \<Longrightarrow> createBlob w f = Inl e \<Longrightarrow> onaudioprocess w p f s = (Inl e, s)"
  by (simp add: onaudioprocess_def prog_defs tick_def)

lemma onaudioprocess_returns:
  "createBlob w f = Inr blob \<Longrightarrow> fst (onaudioprocess w p f s) = Inr ()"
  by (cases p; cases "session s")
     (auto simp add: onaudioprocess_def prog_defs tick_def split: option.splits)

lemma capture_no_session: "session s = None \<Longrightarrow> capture w p fs s = s"
  by (induction fs arbitrary: s) (simp_all add: onaudioprocess_no_session)

lemma realtime_inputs_append:
  "realtime_inputs (xs @ ys) = realtime_inputs xs @ realtime_inputs ys"
  by (induction xs rule: realtime_inputs.induct) simp_all

lemma capture_sends:
  "session s \<noteq> None \<Longrightarrow>
   realtime_inputs (trace (capture w (Fulfilled (Some h)) fs s)) =
     realtime_inputs (trace s) @
     concat (map (\<lambda>f. case createBlob w f of Inl e \<Rightarrow> [] | Inr b \<Rightarrow> [(h, b)]) fs)"
proof (induction fs arbitrary: s)
  case Nil
  then show ?case by simp
next
  case (Cons f fs)
  from Cons.prems obtain h' where h': "session s = Some h'" by auto
  show ?case
  proof (cases "createBlob w f")
    case (Inl e)
    with h' Cons.IH[of s] Cons.prems show ?thesis
      by (simp add: onaudioprocess_blob_fails)
  next
    case (Inr b)
    let ?s' = "s\<lparr>ticks := Suc (ticks s), trace := trace s @ [Ev_sendRealtimeInput h b]\<rparr>"
    have "session ?s' \<noteq> None" using h' by simp
    from Cons.IH[OF this] Inr h' show ?thesis
      by (simp add: onaudioprocess_session realtime_inputs_append)
  qed
qed

text \<open>
  C8.  While \<^verbatim>\<open>sessionRef.current\<close> is not set, every frame is dropped: the frames leave
  the state as it is, so nothing is sent and nothing is kept for later.  While it is set
  (and the promise of the session is fulfilled with the session \<open>h\<close>), every frame whose
  encoding succeeds is sent to \<open>h\<close>, in the order of capture, whether or not any of the
  sends throws; and a tick whose frame is encoded returns without an exception.
\<close>

theorem frames_sent_only_with_session:
  "(session s = None \<longrightarrow> capture w p fs s = s)
   \<and> (session s \<noteq> None \<longrightarrow>
        realtime_inputs (trace (capture w (Fulfilled (Some h)) fs s)) =
          realtime_inputs (trace s) @
          concat (map (\<lambda>f. case createBlob w f of Inl e \<Rightarrow> [] | Inr b \<Rightarrow> [(h, b)]) fs))
   \<and> (createBlob w f = Inr blob \<longrightarrow> fst (onaudioprocess w p f s) = Inr ())"
  using capture_no_session capture_sends onaudioprocess_returns by blast

text \<open>
  The theorem in the environment where every send throws: two frames captured in a
  connected session are both sent, and two frames captured before the session is set
  leave no event.
\<close>

theorem frames_sent_only_with_session_witness:
  "session initial_state = None
   \<and> trace (capture hostile_world (Fulfilled (Some 1)) [[1/2], [1/4]] initial_state) = []
   \<and> session connected_state = Some 1
   \<and> createBlob hostile_world [1/2] = Inr (JArr [JNum (1/2)])
   \<and> realtime_inputs (trace (capture hostile_world (Fulfilled (Some 1)) [[1/2], [1/4]] connected_state))
       = [(1, JArr [JNum (1/2)]), (1, JArr [JNum (1/4)])]
   \<and> fst (onaudioprocess hostile_world (Fulfilled (Some 1)) [1/2] connected_state) = Inr ()"
proof -
  have a: "session initial_state = None" by (simp add: initial_state_def)
  have b: "session connected_state = Some 1" by (simp add: connected_state_def initial_state_def)
  have c: "createBlob hostile_world [1/2] = Inr (JArr [JNum (1/2)])"
    by (simp add: hostile_world_def quiet_world_def)
  have d: "createBlob hostile_world [1/4] = Inr (JArr [JNum (1/4)])"
    by (simp add: hostile_world_def quiet_world_def)
  from frames_sent_only_with_session
         [of initial_state hostile_world "Fulfilled (Some 1)" "[[1/2], [1/4]]" 1 "[1/2]" "JArr [JNum (1/2)]"] a
  have 1: "trace (capture hostile_world (Fulfilled (Some 1)) [[1/2], [1/4]] initial_state) = []"
    by (simp add: initial_state_def)
  from frames_sent_only_with_session
         [of connected_state hostile_world "Fulfilled (Some 1)" "[[1/2], [1/4]]" 1 "[1/2]" "JArr [JNum (1/2)]"] b c d
  have 2: "realtime_inputs (trace (capture hostile_world (Fulfilled (Some 1)) [[1/2], [1/4]] connected_state))
             = [(1, JArr [JNum (1/2)]), (1, JArr [JNum (1/4)])]"
    and 3: "fst (onaudioprocess hostile_world (Fulfilled (Some 1)) [1/2] connected_state) = Inr ()"
    by (simp_all add: connected_state_def initial_state_def)
  from a b c 1 2 3 show ?thesis by blast
qed


section \<open>Properties of the Gmail client\<close>

lemma bindE_Inr: "bindE r f = Inr y \<longleftrightarrow> (\<exists>x. r = Inr x \<and> f x = Inr y)"
  by (cases r) (simp_all add: bindE_def)

lemma bnd_Inr:
  "bnd m f s = (Inr y, s') \<longleftrightarrow> (\<exists>x s1. m s = (Inr x, s1) \<and> f x s1 = (Inr y, s'))"
  by (cases "m s" rule: prod.exhaust; cases "fst (m s)") (auto simp add: bnd_def)

lemma lift_Inr: "lift r s = (Inr y, s') \<longleftrightarrow> r = Inr y \<and> s' = s"
  by (auto simp add: lift_def)

lemma try_rethrow: "try_catch m (\<lambda>e. throw e) = m"
  by (rule ext) (simp add: try_catch_def throw_def split: prod.splits sum.splits)

lemma fetch_json_eq:
  "fetch_json w req s =
    (case fetch w (ticks s) (case accessToken s of None \<Rightarrow> ''null'' | Some k \<Rightarrow> k) req of
       None \<Rightarrow> Inl Rejected | Some j \<Rightarrow> Inr j,
     s\<lparr>ticks := Suc (ticks s),
       trace := trace s @ [Ev_fetch (case accessToken s of None \<Rightarrow> ''null'' | Some k \<Rightarrow> k) req]\<rparr>)"
  by (simp add: fetch_json_def prog_defs tick_def Let_def split: option.splits)

text \<open>
  C10.  With an access token set, when the list request is answered by an object that has
  no \<^verbatim>\<open>messages\<close> field, \<open>getUnreadEmails\<close> and \<open>searchEmails\<close> return the empty list, for
  every \<open>maxResults\<close> and every query that \<^verbatim>\<open>encodeURIComponent\<close> accepts; the list request
  is the only request they send.
\<close>

theorem no_messages_field_gives_empty_list:
  assumes "accessToken s = Some token" and "token \<noteq> []"
    and "map_of kvs ''messages'' = None"
  shows "(fetch w (ticks s) token (List_messages ''is:unread'' (if mr = JUndefined then JNum 10 else mr))
            = Some (JObj kvs) \<longrightarrow>
          getUnreadEmails w mr s =
            (Inr [], s\<lparr>ticks := Suc (ticks s),
                       trace := trace s @ [Ev_fetch token
                         (List_messages ''is:unread'' (if mr = JUndefined then JNum 10 else mr))]\<rparr>))
       \<and> (encodeURIComponent w query = Some q
          \<and> fetch w (ticks s) token (List_messages q (if mr = JUndefined then JNum 10 else mr))
            = Some (JObj kvs) \<longrightarrow>
          searchEmails w query mr s =
            (Inr [], s\<lparr>ticks := Suc (ticks s),
                       trace := trace s @ [Ev_fetch token
                         (List_messages q (if mr = JUndefined then JNum 10 else mr))]\<rparr>))"
  using assms
  by (simp add: getUnreadEmails_def searchEmails_def token_present_def fetch_json_eq
      try_catch_def bnd_def lift_def ret_def Let_def)

theorem no_messages_field_gives_empty_list_witness:
  "accessToken signed_in_state = Some ''token''
   \<and> ''token'' \<noteq> []
   \<and> map_of [(''resultSizeEstimate'', JNum 0)] ''messages'' = None
   \<and> fetch empty_inbox_world (ticks signed_in_state) ''token'' (List_messages ''is:unread'' (JNum 25))
       = Some (JObj [(''resultSizeEstimate'', JNum 0)])
   \<and> fst (getUnreadEmails empty_inbox_world (JNum 25) signed_in_state) = Inr []
   \<and> fetches (trace (snd (getUnreadEmails empty_inbox_world (JNum 25) signed_in_state)))
       = [List_messages ''is:unread'' (JNum 25)]
   \<and> encodeURIComponent empty_inbox_world (JStr ''from:john'') = Some ''from:john''
   \<and> fst (searchEmails empty_inbox_world (JStr ''from:john'') (JNum 25) signed_in_state) = Inr []
   \<and> fetches (trace (snd (searchEmails empty_inbox_world (JStr ''from:john'') (JNum 25) signed_in_state)))
       = [List_messages ''from:john'' (JNum 25)]"
proof -
  have a: "accessToken signed_in_state = Some ''token''"
    by (simp add: signed_in_state_def initial_state_def)
  have b: "''token'' \<noteq> []" by simp
  have c: "map_of [(''resultSizeEstimate'', JNum 0)] ''messages'' = None" by simp
  have d: "fetch empty_inbox_world n ''token'' req = Some (JObj [(''resultSizeEstimate'', JNum 0)])"
    for n req by (simp add: empty_inbox_world_def quiet_world_def)
  have e: "encodeURIComponent empty_inbox_world (JStr ''from:john'') = Some ''from:john''"
    by (simp add: empty_inbox_world_def quiet_world_def)
  from no_messages_field_gives_empty_list
         [OF a b c, of empty_inbox_world "JNum 25" "JStr ''from:john''" "''from:john''"] d e
  have 1: "fst (getUnreadEmails empty_inbox_world (JNum 25) signed_in_state) = Inr []"
    and 2: "fetches (trace (snd (getUnreadEmails empty_inbox_world (JNum 25) signed_in_state)))
              = [List_messages ''is:unread'' (JNum 25)]"
    and 3: "fst (searchEmails empty_inbox_world (JStr ''from:john'') (JNum 25) signed_in_state) = Inr []"
    and 4: "fetches (trace (snd (searchEmails empty_inbox_world (JStr ''from:john'') (JNum 25) signed_in_state)))
              = [List_messages ''from:john'' (JNum 25)]"
    by (simp_all add: signed_in_state_def initial_state_def)
  from a b c d e 1 2 3 4 show ?thesis by blast
qed

lemma parseEmail_body:
  "parseEmail w m = Inr e \<Longrightarrow>
   \<exists>payload b. get_prop m ''payload'' = Inr payload \<and> extract_body w payload = Inr b
       \<and> email_body e = take 500 b"
  unfolding parseEmail_def bindE_Inr by force

lemma parseEmail_body_le: "parseEmail w m = Inr e \<Longrightarrow> length (email_body e) \<le> 500"
  by (drule parseEmail_body) auto

lemma fetch_details_bodies:
  "fetch_details w ms acc s = (Inr es, s') \<Longrightarrow> \<forall>e\<in>set acc. length (email_body e) \<le> 500 \<Longrightarrow>
   \<forall>e\<in>set es. length (email_body e) \<le> 500"
proof (induction ms arbitrary: acc s)
  case Nil
  then show ?case by (simp add: ret_def)
next
  case (Cons m ms)
  from Cons.prems(1) obtain mid s1 detail s2 e where
    e: "parseEmail w detail = Inr e" and
    rest: "fetch_details w ms (acc @ [e]) s2 = (Inr es, s')"
    unfolding fetch_details.simps bnd_Inr lift_Inr by blast
  have "\<forall>x\<in>set (acc @ [e]). length (email_body x) \<le> 500"
    using Cons.prems(2) parseEmail_body_le[OF e] by simp
  from Cons.IH[OF rest this] show ?case .
qed

lemma list_then_details_bodies:
  assumes "bnd (fetch_json w req) (\<lambda>listData.
          bnd (lift (get_prop listData ''messages'')) (\<lambda>messages.
          if \<not> truthy messages then ret []
          else bnd (lift (iterate messages)) (\<lambda>ms. fetch_details w ms []))) s = (Inr es, s')"
  shows "\<forall>e\<in>set es. length (email_body e) \<le> 500"
proof -
  from assms obtain messages s1 where
    m: "(if \<not> truthy messages then ret []
         else bnd (lift (iterate messages)) (\<lambda>ms. fetch_details w ms [])) s1 = (Inr es, s')"
    unfolding bnd_Inr lift_Inr by blast
  show ?thesis
  proof (cases "truthy messages")
    case False
    with m show ?thesis by (simp add: ret_def)
  next
    case True
    with m obtain ms where "fetch_details w ms [] s1 = (Inr es, s')"
      by (auto simp add: bnd_Inr lift_Inr)
    from fetch_details_bodies[OF this] show ?thesis by simp
  qed
qed

lemma getUnreadEmails_bodies:
  "getUnreadEmails w mr s = (Inr es, s') \<Longrightarrow> \<forall>e\<in>set es. length (email_body e) \<le> 500"
  unfolding getUnreadEmails_def Let_def try_rethrow
  by (cases "token_present (accessToken s)")
     (auto simp add: throw_def dest!: list_then_details_bodies)

lemma searchEmails_bodies:
  "searchEmails w q mr s = (Inr es, s') \<Longrightarrow> \<forall>e\<in>set es. length (email_body e) \<le> 500"
  unfolding searchEmails_def Let_def try_rethrow
  by (cases "token_present (accessToken s)")
     (auto simp add: throw_def bnd_Inr[of "lift _"] lift_Inr dest!: list_then_details_bodies)

text \<open>
  C9.  Every \<open>email\<close> in a list that \<open>getUnreadEmails\<close> or \<open>searchEmails\<close> returns has a
  body of at most 500 characters; the body of a record that \<open>parseEmail\<close> returns is the
  first 500 characters of the body it has extracted from the message.
\<close>

theorem email_bodies_at_most_500:
  "(fst (getUnreadEmails w mr s) = Inr es \<longrightarrow> (\<forall>e\<in>set es. length (email_body e) \<le> 500))
   \<and> (fst (searchEmails w q mr s) = Inr es \<longrightarrow> (\<forall>e\<in>set es. length (email_body e) \<le> 500))
   \<and> (parseEmail w m = Inr e \<longrightarrow>
        (\<exists>payload b. get_prop m ''payload'' = Inr payload \<and> extract_body w payload = Inr b
           \<and> email_body e = take 500 b))"
proof (intro conjI impI)
  assume "fst (getUnreadEmails w mr s) = Inr es"
  then have "getUnreadEmails w mr s = (Inr es, snd (getUnreadEmails w mr s))"
    by (metis prod.collapse)
  then show "\<forall>e\<in>set es. length (email_body e) \<le> 500" by (rule getUnreadEmails_bodies)
next
  assume "fst (searchEmails w q mr s) = Inr es"
  then have "searchEmails w q mr s = (Inr es, snd (searchEmails w q mr s))"
    by (metis prod.collapse)
  then show "\<forall>e\<in>set es. length (email_body e) \<le> 500" by (rule searchEmails_bodies)
next
  assume "parseEmail w m = Inr e"
  then show "\<exists>payload b. get_prop m ''payload'' = Inr payload \<and> extract_body w payload = Inr b
           \<and> email_body e = take 500 b" by (rule parseEmail_body)
qed

lemma mail_world_simps:
  "fetch mail_world n token (List_messages q mr)
     = Some (JObj [(''messages'', JArr [JObj [(''id'', JStr ''m1'')]])])"
  "fetch mail_world n token (Get_message i) = Some long_mail"
  "atob mail_world d = Some d"
  "toLowerCase mail_world x = x"
  "encodeURIComponent mail_world (JStr x) = Some x"
  by (simp_all add: mail_world_def quiet_world_def)

lemma parse_long_mail: "parseEmail mail_world long_mail = Inr long_mail_parsed"
  by (simp add: parseEmail_def long_mail_def bindE_def extract_body_def decode_body_def
      getHeader_def mail_world_simps long_mail_parsed_def)

lemma get_long_mail:
  "fst (getUnreadEmails mail_world (JNum 10) signed_in_state) = Inr [long_mail_parsed]"
  by (simp add: getUnreadEmails_def token_present_def signed_in_state_def initial_state_def
      try_rethrow fetch_json_eq bnd_def lift_def ret_def parse_long_mail mail_world_simps)

lemma search_long_mail:
  "fst (searchEmails mail_world (JStr ''hello'') (JNum 10) signed_in_state) = Inr [long_mail_parsed]"
  by (simp add: searchEmails_def token_present_def signed_in_state_def initial_state_def
      try_rethrow fetch_json_eq bnd_def lift_def ret_def parse_long_mail mail_world_simps)

text \<open>The theorem at a mailbox whose only message has a body of 600 characters.\<close>

theorem email_bodies_at_most_500_witness:
  "fst (getUnreadEmails mail_world (JNum 10) signed_in_state) = Inr [long_mail_parsed]
   \<and> fst (searchEmails mail_world (JStr ''hello'') (JNum 10) signed_in_state) = Inr [long_mail_parsed]
   \<and> parseEmail mail_world long_mail = Inr long_mail_parsed
   \<and> length (email_body long_mail_parsed) \<le> 500"
proof -
  note T = email_bodies_at_most_500
             [of mail_world "JNum 10" signed_in_state "[long_mail_parsed]" "JStr ''hello''"
                 long_mail long_mail_parsed]
  from T get_long_mail have "\<forall>e\<in>set [long_mail_parsed]. length (email_body e) \<le> 500"
    by blast
  then have "length (email_body long_mail_parsed) \<le> 500" by simp
  with get_long_mail search_long_mail parse_long_mail show ?thesis by blast
qed


section \<open>Invariants of handlers\<close>

named_theorems inv_intros

lemma invariantD: "invariant I m \<Longrightarrow> I s \<Longrightarrow> I (snd (m s))"
  by (simp add: invariant_def)

lemma invariant_ret [inv_intros]: "invariant I (ret x)"
  and invariant_throw [inv_intros]: "invariant I (throw e)"
  and invariant_lift [inv_intros]: "invariant I (lift r)"
  by (simp_all add: invariant_def ret_def throw_def lift_def)

lemma invariant_bnd [inv_intros]:
  assumes "invariant I m" and "\<And>x. invariant I (f x)"
  shows "invariant I (bnd m f)"
  unfolding invariant_def
proof (intro allI impI)
  fix s assume s: "I s"
  obtain r s1 where ms: "m s = (r, s1)" by (cases "m s")
  have 1: "I s1" using invariantD[OF assms(1) s] ms by simp
  show "I (snd (bnd m f s))"
  proof (cases r)
    case (Inl e)
    with ms 1 show ?thesis by (simp add: bnd_def)
  next
    case (Inr x)
    with ms invariantD[OF assms(2) 1, of x] show ?thesis by (simp add: bnd_def)
  qed
qed

lemma invariant_seq [inv_intros]: "invariant I m \<Longrightarrow> invariant I n \<Longrightarrow> invariant I (seq m n)"
  by (simp add: seq_def invariant_bnd)

lemma invariant_try_catch [inv_intros]:
  assumes "invariant I m" and "\<And>e. invariant I (h e)"
  shows "invariant I (try_catch m h)"
  unfolding invariant_def
proof (intro allI impI)
  fix s assume s: "I s"
  obtain r s1 where ms: "m s = (r, s1)" by (cases "m s")
  have 1: "I s1" using invariantD[OF assms(1) s] ms by simp
  show "I (snd (try_catch m h s))"
  proof (cases r)
    case (Inr x)
    with ms 1 show ?thesis by (simp add: try_catch_def)
  next
    case (Inl e)
    with ms invariantD[OF assms(2) 1, of e] show ?thesis by (simp add: try_catch_def)
  qed
qed

lemma invariant_if [inv_intros]:
  "invariant I m \<Longrightarrow> invariant I n \<Longrightarrow> invariant I (if b then m else n)"
  by simp

lemma invariant_for_each [inv_intros]:
  "(\<And>x. invariant I (f x)) \<Longrightarrow> invariant I (for_each f xs)"
  by (induction xs) (simp_all add: invariant_ret invariant_seq)

lemma invariant_if_state:
  "invariant I m \<Longrightarrow> invariant I n \<Longrightarrow> invariant I (\<lambda>s. if b s then m s else n s)"
  by (simp add: invariant_def)

lemma invariant_modify: "(\<And>s. I s \<Longrightarrow> I (f s)) \<Longrightarrow> invariant I (modify f)"
  by (simp add: invariant_def modify_def)

lemma invariant_tick: "(\<And>s. I s \<Longrightarrow> I (s\<lparr>ticks := Suc (ticks s)\<rparr>)) \<Longrightarrow> invariant I tick"
  by (simp add: invariant_def tick_def)

lemma invariant_emit: "(\<And>s. I s \<Longrightarrow> I (s\<lparr>trace := trace s @ [ev]\<rparr>)) \<Longrightarrow> invariant I (emit ev)"
  by (simp add: invariant_def emit_def modify_def)

lemma invariant_case_option [inv_intros]:
  "invariant I n \<Longrightarrow> (\<And>x. invariant I (f x)) \<Longrightarrow> invariant I (case v of None \<Rightarrow> n | Some x \<Rightarrow> f x)"
  by (cases v) simp_all

lemma invariant_case_array [inv_intros]:
  "(\<And>xs. invariant I (f xs)) \<Longrightarrow> invariant I n \<Longrightarrow>
   invariant I (case v of JArr xs \<Rightarrow> f xs | _ \<Rightarrow> n)"
  by (cases v) simp_all

lemma frame_refl: "frame P s s"
  by (simp add: frame_def)

lemma frame_trans: "frame P s s1 \<Longrightarrow> frame P s1 s2 \<Longrightarrow> frame P s s2"
  by (auto simp add: frame_def)

lemma frame_mono: "(\<And>ev. P ev \<Longrightarrow> Q ev) \<Longrightarrow> frame P s s' \<Longrightarrow> frame Q s s'"
  by (auto simp add: frame_def)

lemma invariant_of_frame:
  assumes "\<And>s0. invariant (frame P s0) m" and "\<And>s s'. frame P s s' \<Longrightarrow> J s \<Longrightarrow> J s'"
  shows "invariant J m"
  unfolding invariant_def
proof (intro allI impI)
  fix s assume "J s"
  have "frame P s (snd (m s))" by (rule invariantD[OF assms(1) frame_refl])
  from assms(2)[OF this \<open>J s\<close>] show "J (snd (m s))" .
qed

lemma frame_weaken:
  assumes "\<And>s0. invariant (frame P s0) m" and "\<And>ev. P ev \<Longrightarrow> Q ev"
  shows "invariant (frame Q s0) m"
proof (rule invariant_of_frame[OF assms(1)])
  fix s s' assume "frame P s s'" and "frame Q s0 s"
  from frame_mono[of P Q, OF assms(2) this(1)] have "frame Q s s'" .
  with \<open>frame Q s0 s\<close> show "frame Q s0 s'" by (rule frame_trans)
qed

lemma keys_distinct:
  "MEMORY_KEY \<noteq> DRAFTS_KEY" "MEMORY_KEY \<noteq> TASKS_KEY" "DRAFTS_KEY \<noteq> TASKS_KEY"
  "DRAFTS_KEY \<noteq> MEMORY_KEY" "TASKS_KEY \<noteq> MEMORY_KEY" "TASKS_KEY \<noteq> DRAFTS_KEY"
  by (simp_all add: MEMORY_KEY_def DRAFTS_KEY_def TASKS_KEY_def)

lemma frame_tick [inv_intros]: "invariant (frame P s0) tick"
  by (simp add: invariant_def frame_def tick_def storage_ok_def)

lemma frame_emit: "P ev \<Longrightarrow> invariant (frame P s0) (emit ev)"
  by (auto simp add: invariant_def frame_def emit_def modify_def storage_ok_def)

lemma frame_modify [inv_intros]:
  "invariant (frame P s0) (modify (\<lambda>s. s\<lparr>emails := x\<rparr>))"
  "invariant (frame P s0) (modify (\<lambda>s. s\<lparr>memories := y\<rparr>))"
  "invariant (frame P s0) (modify (\<lambda>s. s\<lparr>drafts := d\<rparr>))"
  "invariant (frame P s0) (modify (\<lambda>s. s\<lparr>tasks := d\<rparr>))"
  "invariant (frame P s0) (parse_item k)"
  "invariant (frame P s0) (setItem MEMORY_KEY (JSON_stringify v))"
  "invariant (frame P s0) (setItem DRAFTS_KEY (JSON_stringify (JArr xs)))"
  "invariant (frame P s0) (setItem TASKS_KEY (JSON_stringify (JArr xs)))"
  by (simp_all add: invariant_def frame_def modify_def setItem_def parse_item_def lift_def
      storage_ok_def keys_distinct JSON_stringify_def)

lemma frame_fetch_json [inv_intros]: "invariant (frame is_fetch s0) (fetch_json w req)"
  by (auto simp add: invariant_def frame_def fetch_json_eq storage_ok_def)

lemma frame_fetch_details [inv_intros]: "invariant (frame is_fetch s0) (fetch_details w ms acc)"
  by (induction ms arbitrary: acc) (simp_all add: inv_intros)

lemma frame_getUnreadEmails [inv_intros]: "invariant (frame is_fetch s0) (getUnreadEmails w mr)"
  unfolding getUnreadEmails_def Let_def
  by (rule invariant_if_state) (intro inv_intros)+

lemma frame_searchEmails [inv_intros]: "invariant (frame is_fetch s0) (searchEmails w q mr)"
  unfolding searchEmails_def Let_def
  by (rule invariant_if_state) (intro inv_intros)+

lemma frame_queue [inv_intros]:
  "invariant (frame P s0) (modify (\<lambda>s. s\<lparr>queued_memories := f s\<rparr>))"
  by (simp add: invariant_def frame_def modify_def storage_ok_def)

lemma frame_add_memory [inv_intros]: "invariant (frame P s0) (add_memory w c)"
  by (simp add: invariant_def add_memory_def Let_def prog_defs tick_def setItem_def frame_def
      storage_ok_def keys_distinct JSON_stringify_def)

lemma frame_persistMemory [inv_intros]: "invariant (frame P s0) (persistMemory w c)"
  unfolding persistMemory_def by (intro inv_intros)

lemma frame_render: "invariant (frame P s0) (render w)"
  unfolding invariant_def
proof (intro allI impI)
  fix s assume "frame P s0 s"
  have "invariant (frame P s0)
          (seq (modify (\<lambda>s. s\<lparr>queued_memories := []\<rparr>)) (for_each (add_memory w) (queued_memories s)))"
    by (intro inv_intros)
  from invariantD[OF this \<open>frame P s0 s\<close>] show "frame P s0 (snd (render w s))"
    by (simp add: render_def)
qed

lemma frame_write_email [inv_intros]: "invariant (frame P s0) (write_email w fc)"
  unfolding write_email_def Let_def by (intro inv_intros)

lemma frame_create_task [inv_intros]: "invariant (frame P s0) (create_task w fc)"
  unfolding create_task_def Let_def by (intro inv_intros)

lemma frame_read_emails [inv_intros]: "invariant (frame is_fetch s0) (read_emails w a fc)"
  unfolding read_emails_def by (intro inv_intros)

lemma frame_search_emails [inv_intros]: "invariant (frame is_fetch s0) (search_emails w a fc)"
  unfolding search_emails_def by (intro inv_intros)

lemma frame_run_function: "invariant (frame is_fetch s0) (run_function w a fc)"
  unfolding run_function_def by (intro inv_intros)

lemma frame_respond: "invariant (frame is_io s0) (respond w fc r)"
  by (auto simp add: invariant_def respond_def frame_def prog_defs tick_def is_io_def
      storage_ok_def split: option.splits)

lemma frame_iteration: "invariant (frame is_io s0) (iteration w a fc)"
  unfolding iteration_def
  by (intro inv_intros frame_respond frame_weaken[OF frame_run_function]) (simp add: is_io_def)

lemma frame_tool_loop: "invariant (frame is_io s0) (tool_loop w a calls)"
  by (induction calls) (simp_all add: inv_intros frame_iteration)

lemma frame_handle_tool_calls: "invariant (frame is_io s0) (handle_tool_calls w a m)"
  unfolding handle_tool_calls_def
  by (intro inv_intros frame_tool_loop)

lemma frame_complete_tools: "invariant (frame is_io s0) (complete_tools w a m)"
  unfolding complete_tools_def
  by (intro inv_intros frame_iteration)

lemma frame_fields:
  assumes "frame P s s'"
  shows "nextStartTime s' = nextStartTime s" "audioContext s' = audioContext s"
    "session s' = session s" "pending s' = pending s" "sources s' = sources s"
    "status s' = status s"
  using assms by (simp_all add: frame_def)


section \<open>Properties of the tool dispatcher\<close>


lemma started_append: "started (xs @ ys) = started xs @ started ys"
  by (induction xs rule: started.induct) simp_all


lemma read_emails_cases:
  "fc_name fc = Some ''read_emails'' \<Longrightarrow>
   read_emails w a fc s =
    (if \<not> a then (Inr (JStr ''Please sign in to Gmail first to read your emails.''), s)
     else case mail_request w fc s of
        (Inl e, s1) \<Rightarrow> (Inr (JStr ''Sorry, I couldn't read your emails. Please try signing in again.''), s1)
      | (Inr es, s1) \<Rightarrow>
          (case summarizeEmails w es of
             Inl e \<Rightarrow> (Inr (JStr ''Sorry, I couldn't read your emails. Please try signing in again.''),
                       s1\<lparr>emails := es\<rparr>)
           | Inr r \<Rightarrow> (Inr (JStr r), s1\<lparr>emails := es\<rparr>)))"
  by (simp add: read_emails_def mail_request_def prog_defs split: prod.splits sum.splits)

lemma search_emails_cases:
  "fc_name fc \<noteq> Some ''read_emails'' \<Longrightarrow>
   search_emails w a fc s =
    (if \<not> a then (Inr (JStr ''Please sign in to Gmail first to search your emails.''), s)
     else case mail_request w fc s of
        (Inl e, s1) \<Rightarrow> (Inr (JStr ''Sorry, I couldn't search your emails. Please try again.''), s1)
      | (Inr es, s1) \<Rightarrow>
          (case summarizeEmails w es of
             Inl e \<Rightarrow> (Inr (JStr ''Sorry, I couldn't search your emails. Please try again.''),
                       s1\<lparr>emails := es\<rparr>)
           | Inr r \<Rightarrow> (Inr (JStr r), s1\<lparr>emails := es\<rparr>)))"
  by (simp add: search_emails_def mail_request_def prog_defs split: prod.splits sum.splits)

lemma run_function_read:
  "fc_name fc = Some ''read_emails'' \<Longrightarrow> run_function w a fc = read_emails w a fc"
  by (simp add: run_function_def)

lemma run_function_search:
  "fc_name fc = Some ''search_emails'' \<Longrightarrow> run_function w a fc = search_emails w a fc"
  by (simp add: run_function_def)

lemma mail_result:
  assumes "fc_name fc = Some ''read_emails'' \<or> fc_name fc = Some ''search_emails''"
  shows "\<exists>r. fst (run_function w a fc s) = Inr (JStr r)
     \<and> (\<not> a \<longrightarrow> snd (run_function w a fc s) = s
          \<and> r = (if fc_name fc = Some ''read_emails''
                 then ''Please sign in to Gmail first to read your emails.''
                 else ''Please sign in to Gmail first to search your emails.''))
     \<and> (a \<and> (\<exists>e. fst (mail_request w fc s) = Inl e) \<longrightarrow>
          r = (if fc_name fc = Some ''read_emails''
               then ''Sorry, I couldn't read your emails. Please try signing in again.''
               else ''Sorry, I couldn't search your emails. Please try again.''))"
  using assms
proof
  assume n: "fc_name fc = Some ''read_emails''"
  show ?thesis
    unfolding run_function_read[OF n] read_emails_cases[OF n]
    using n by (auto split: prod.splits sum.splits)
next
  assume n: "fc_name fc = Some ''search_emails''"
  then have n': "fc_name fc \<noteq> Some ''read_emails''" by simp
  show ?thesis
    unfolding run_function_search[OF n] search_emails_cases[OF n']
    using n by (auto split: prod.splits sum.splits)
qed

lemma iteration_step:
  "fst (run_function w a fc s) = Inr r \<Longrightarrow>
   iteration w a fc s = respond w fc r (snd (run_function w a fc s))"
  by (cases "run_function w a fc s") (simp add: iteration_def bnd_def)

text \<open>
  C7.  A call of \<^verbatim>\<open>read_emails\<close> or \<^verbatim>\<open>search_emails\<close> never throws and its result is a
  string.  When the flag \<open>isGmailAuthenticated\<close> of the handler is false, the result is the
  advice to sign in and the state is unchanged: the client is not called.  When the flag
  is true and the call of the client (or a read of \<^verbatim>\<open>fc.args\<close> before it) throws, the
  result is the advice to try again.  In both cases the status and the session reference
  are unchanged, and what follows the call is the response to it and then the loop over
  the calls after this one: in the handler that has awaited the client and is resumed,
  in the loop that reaches the call (which awaits when the flag is true and \<^verbatim>\<open>fc.args\<close>
  can be read), and in the loop run to its end at once.
\<close>

theorem mail_calls_resolve_with_advisory:
  assumes "fc_name fc = Some ''read_emails'' \<or> fc_name fc = Some ''search_emails''"
  shows "\<exists>r. fst (run_function w a fc s) = Inr (JStr r)
     \<and> (\<not> a \<longrightarrow> snd (run_function w a fc s) = s
          \<and> r = (if fc_name fc = Some ''read_emails''
                 then ''Please sign in to Gmail first to read your emails.''
                 else ''Please sign in to Gmail first to search your emails.''))
     \<and> (a \<and> (\<exists>e. fst (mail_request w fc s) = Inl e) \<longrightarrow>
          r = (if fc_name fc = Some ''read_emails''
               then ''Sorry, I couldn't read your emails. Please try signing in again.''
               else ''Sorry, I couldn't search your emails. Please try again.''))
     \<and> status (snd (run_function w a fc s)) = status s
     \<and> session (snd (run_function w a fc s)) = session s
     \<and> resume w a (After_mail fc rest) s =
         seq (respond w fc (JStr r)) (tool_loop w a rest) (snd (run_function w a fc s))
     \<and> tool_loop w a (fc # rest) s =
         (if a \<and> fc_args fc \<noteq> None then (Inr (Some (After_mail fc rest)), s)
          else seq (respond w fc (JStr r)) (tool_loop w a rest) (snd (run_function w a fc s)))
     \<and> for_each (iteration w a) (fc # rest) s =
         seq (respond w fc (JStr r)) (for_each (iteration w a) rest) (snd (run_function w a fc s))"
proof -
  from mail_result[OF assms, of w a s] obtain r where
    r: "fst (run_function w a fc s) = Inr (JStr r)"
    and u: "\<not> a \<longrightarrow> snd (run_function w a fc s) = s
          \<and> r = (if fc_name fc = Some ''read_emails''
                 then ''Please sign in to Gmail first to read your emails.''
                 else ''Please sign in to Gmail first to search your emails.'')"
    and f: "a \<and> (\<exists>e. fst (mail_request w fc s) = Inl e) \<longrightarrow>
          r = (if fc_name fc = Some ''read_emails''
               then ''Sorry, I couldn't read your emails. Please try signing in again.''
               else ''Sorry, I couldn't search your emails. Please try again.'')"
    by blast
  have fr: "frame is_fetch s (snd (run_function w a fc s))"
    by (rule invariantD[OF frame_run_function frame_refl])
  then have st: "status (snd (run_function w a fc s)) = status s"
    and se: "session (snd (run_function w a fc s)) = session s"
    by (simp_all add: frame_def)
  have it: "seq (iteration w a fc) n s = seq (respond w fc (JStr r)) n (snd (run_function w a fc s))"
    for n :: "(app_state, 'x) prog"
    using iteration_step[OF r] by (simp add: seq_def bnd_def)
  have re: "resume w a (After_mail fc rest) s =
         seq (respond w fc (JStr r)) (tool_loop w a rest) (snd (run_function w a fc s))"
    using it by simp
  have lp: "tool_loop w a (fc # rest) s =
         (if a \<and> fc_args fc \<noteq> None then (Inr (Some (After_mail fc rest)), s)
          else seq (respond w fc (JStr r)) (tool_loop w a rest) (snd (run_function w a fc s)))"
    using it assms by (auto simp add: mail_awaits_def ret_def)
  have fe: "for_each (iteration w a) (fc # rest) s =
         seq (respond w fc (JStr r)) (for_each (iteration w a) rest) (snd (run_function w a fc s))"
    using it by simp
  from r u f st se re lp fe show ?thesis by blast
qed

text \<open>
  The theorem at a call of \<^verbatim>\<open>read_emails\<close>: without the flag, and with the flag in an
  environment whose network rejects every request.
\<close>

theorem mail_calls_resolve_with_advisory_witness:
  "fc_name read_call = Some ''read_emails''
   \<and> fst (run_function quiet_world False read_call signed_in_state)
       = Inr (JStr ''Please sign in to Gmail first to read your emails.'')
   \<and> snd (run_function quiet_world False read_call signed_in_state) = signed_in_state
   \<and> fst (mail_request quiet_world read_call signed_in_state) = Inl Rejected
   \<and> fst (run_function quiet_world True read_call signed_in_state)
       = Inr (JStr ''Sorry, I couldn't read your emails. Please try signing in again.'')
   \<and> status (snd (run_function quiet_world True read_call signed_in_state)) = status signed_in_state"
proof -
  have n: "fc_name read_call = Some ''read_emails''" by (simp add: read_call_def)
  then have n': "fc_name read_call = Some ''read_emails'' \<or> fc_name read_call = Some ''search_emails''"
    by blast
  have f: "fst (mail_request quiet_world read_call signed_in_state) = Inl Rejected"
    by (simp add: mail_request_def n maxResults_of_def arg_def bindE_def lift_def read_call_def
        getUnreadEmails_def token_present_def try_rethrow
        fetch_json_eq bnd_def signed_in_state_def initial_state_def quiet_world_def)
  from mail_calls_resolve_with_advisory[OF n', of quiet_world False signed_in_state] n
  have 1: "fst (run_function quiet_world False read_call signed_in_state)
       = Inr (JStr ''Please sign in to Gmail first to read your emails.'')"
    and 2: "snd (run_function quiet_world False read_call signed_in_state) = signed_in_state"
    by auto
  from mail_calls_resolve_with_advisory[OF n', of quiet_world True signed_in_state] n f
  have 3: "fst (run_function quiet_world True read_call signed_in_state)
       = Inr (JStr ''Sorry, I couldn't read your emails. Please try signing in again.'')"
    and 4: "status (snd (run_function quiet_world True read_call signed_in_state))
              = status signed_in_state"
    by auto
  from n f 1 2 3 4 show ?thesis by blast
qed














section \<open>The parts of the message handler\<close>

lemma handle_transcriptions_fst: "fst (handle_transcriptions m s) = Inr ()"
  by (simp add: handle_transcriptions_def prog_defs split: option.splits)

lemma handle_transcriptions_fields:
  "session (snd (handle_transcriptions m s)) = session s"
  "localStorage (snd (handle_transcriptions m s)) = localStorage s"
  "trace (snd (handle_transcriptions m s)) = trace s"
  "nextStartTime (snd (handle_transcriptions m s)) = nextStartTime s"
  "audioContext (snd (handle_transcriptions m s)) = audioContext s"
  "sources (snd (handle_transcriptions m s)) = sources s"
  "ticks (snd (handle_transcriptions m s)) = ticks s"
  "pending (snd (handle_transcriptions m s)) = pending s"
  by (simp_all add: handle_transcriptions_def prog_defs split: option.splits)

lemma handle_interruption_eq:
  "handle_interruption w m s =
     (Inr (), if interrupted_of m
              then s\<lparr>isSpeaking := False, sources := [], nextStartTime := 0,
                     trace := trace s @ map Ev_source_stop (sources s)\<rparr>
              else s)"
  by (simp add: handle_interruption_def interrupted_of_def stopAllAudio_eq seq_def bnd_def
      modify_def ret_def split: option.splits)

lemma finish_audio_eq:
  "try_catch (finish_audio w data) (\<lambda>err. ret ()) s =
     (Inr (),
      case decodeAudioData w data of
        Buffer d \<Rightarrow>
          s\<lparr>nextStartTime := float_add w (nextStartTime s) d,
            sources := sources s @ [\<lparr>src_id = ticks s, src_start = nextStartTime s,
                                      src_duration = d\<rparr>],
            ticks := Suc (ticks s),
            trace := trace s @ [Ev_source_start
                       \<lparr>src_id = ticks s, src_start = nextStartTime s, src_duration = d\<rparr>]\<rparr>
      | _ \<Rightarrow> s)"
  by (simp add: finish_audio_def prog_defs tick_def Let_def split: decode_outcome.splits)

lemma finish_audio_fst: "fst (try_catch (finish_audio w data) (\<lambda>err. ret ()) s) = Inr ()"
  by (simp add: finish_audio_eq)

lemma seq_returns: "fst (m s) = Inr () \<Longrightarrow> seq m n s = n (snd (m s))"
  by (cases "m s") (simp add: seq_def bnd_def)

lemma complete_audio_eq:
  "complete_audio w t ad s =
     (Inr (),
      case ad of
        None \<Rightarrow> s
      | Some data \<Rightarrow>
          if data \<noteq> [] \<and> audioContext s then
            snd (try_catch (finish_audio w data) (\<lambda>err. ret ())
                   (s\<lparr>isSpeaking := True, nextStartTime := max (nextStartTime s) t\<rparr>))
          else s)"
proof (cases ad)
  case None
  then show ?thesis by (simp add: complete_audio_def ret_def)
next
  case (Some data)
  show ?thesis
  proof (cases "data \<noteq> [] \<and> audioContext s")
    case True
    let ?s3 = "s\<lparr>isSpeaking := True, nextStartTime := max (nextStartTime s) t\<rparr>"
    have "complete_audio w t ad s = try_catch (finish_audio w data) (\<lambda>err. ret ()) ?s3"
      using Some True by (simp add: complete_audio_def seq_def bnd_def modify_def)
    also have "\<dots> = (Inr (), snd (try_catch (finish_audio w data) (\<lambda>err. ret ()) ?s3))"
      using finish_audio_fst[of w data ?s3]
      by (cases "try_catch (finish_audio w data) (\<lambda>err. ret ()) ?s3") simp
    finally show ?thesis using Some True by simp
  next
    case False
    with Some show ?thesis by (auto simp add: complete_audio_def ret_def)
  qed
qed

lemma handler_unfold:
  "handleSessionMessage w a t m s =
     bnd (lift (audioData_of m)) (handle_audio w a t m) (after_signals w m s)"
proof -
  have 2: "fst (handle_interruption w m s') = Inr ()" for s'
    by (simp add: handle_interruption_eq)
  show ?thesis
    unfolding handleSessionMessage_def after_signals_def
    by (simp only: seq_returns[OF handle_transcriptions_fst] seq_returns[OF 2])
qed

lemma complete_unfold:
  "complete_message w a t m s =
     bnd (lift (audioData_of m)) (\<lambda>audioData. seq (complete_audio w t audioData) (complete_tools w a m))
       (after_signals w m s)"
proof -
  have 2: "fst (handle_interruption w m s') = Inr ()" for s'
    by (simp add: handle_interruption_eq)
  show ?thesis
    unfolding complete_message_def after_signals_def
    by (simp only: seq_returns[OF handle_transcriptions_fst] seq_returns[OF 2])
qed


lemma stops_no_starts: "started (map Ev_source_stop xs) = []"
  by (induction xs) simp_all

lemma after_signals_props:
  "session (after_signals w m s) = session s"
  "localStorage (after_signals w m s) = localStorage s"
  "pending (after_signals w m s) = pending s"
  "audioContext (after_signals w m s) = audioContext s"
  "trace (after_signals w m s)
     = trace s @ (if interrupted_of m then map Ev_source_stop (sources s) else [])"
  "nextStartTime (after_signals w m s) = (if interrupted_of m then 0 else nextStartTime s)"
  unfolding after_signals_def
  by (simp_all add: handle_interruption_eq handle_transcriptions_fields)

lemma new_events_append: "trace s' = trace s @ evs \<Longrightarrow> new_events s s' = evs"
  by (simp add: new_events_def)


section \<open>The handler run to its end\<close>

lemma settle_simps:
  "settle (Inl e, s) = s"
  "settle (Inr None, s) = s"
  "settle (Inr (Some k), s) = s\<lparr>pending := pending s @ [k]\<rparr>"
  by (simp_all add: settle_def)

lemma run_ops_append: "run_ops w a (xs @ ys) s = run_ops w a ys (run_ops w a xs s)"
  by (induction xs arbitrary: s) simp_all

lemma resumes_idle: "pending s = [] \<Longrightarrow> run_ops w a (map Op_resume ks) s = s"
  by (induction ks) simp_all

lemma resume_only_pending:
  "pending s = [] \<Longrightarrow> run_op w a (Op_resume k) (s\<lparr>pending := [k]\<rparr>) = settle (resume w a k s)"
proof -
  assume "pending s = []"
  then have "s\<lparr>pending := []\<rparr> = s" by simp
  then show ?thesis by simp
qed

lemma iteration_pending: "pending (snd (iteration w a fc s)) = pending s"
  using invariantD[OF frame_iteration frame_refl, of s w a fc] by (simp add: frame_def)

lemma link_iteration:
  assumes IH: "\<And>s. pending s = [] \<Longrightarrow>
      run_ops w a (map Op_resume (mail_conts a rest)) (settle (tool_loop w a rest s))
        = snd (for_each (iteration w a) rest s)"
    and p: "pending s = []"
  shows "run_ops w a (map Op_resume (mail_conts a rest))
           (settle (seq (iteration w a fc) (tool_loop w a rest) s))
         = snd (for_each (iteration w a) (fc # rest) s)"
proof -
  obtain r s1 where it: "iteration w a fc s = (r, s1)" by (cases "iteration w a fc s")
  with iteration_pending[of w a fc s] p have p1: "pending s1 = []" by simp
  show ?thesis
  proof (cases r)
    case (Inl e)
    with it p1 show ?thesis by (simp add: seq_def bnd_def settle_simps resumes_idle)
  next
    case (Inr u)
    with it IH[OF p1] show ?thesis by (simp add: seq_def bnd_def)
  qed
qed

lemma link_tool_loop:
  "pending s = [] \<Longrightarrow>
   run_ops w a (map Op_resume (mail_conts a calls)) (settle (tool_loop w a calls s))
     = snd (for_each (iteration w a) calls s)"
proof (induction calls arbitrary: s)
  case Nil
  then show ?case by (simp add: ret_def settle_simps)
next
  case (Cons fc rest)
  note li = link_iteration[of w a rest _ fc, OF Cons.IH]
  show ?case
  proof (cases "mail_awaits a fc")
    case True
    have "run_ops w a (map Op_resume (mail_conts a (fc # rest))) (settle (tool_loop w a (fc # rest) s))
        = run_ops w a (map Op_resume (mail_conts a rest))
            (run_op w a (Op_resume (After_mail fc rest)) (s\<lparr>pending := [After_mail fc rest]\<rparr>))"
      using True Cons.prems by (simp add: ret_def settle_simps)
    also have "\<dots> = run_ops w a (map Op_resume (mail_conts a rest))
            (settle (seq (iteration w a fc) (tool_loop w a rest) s))"
      by (simp only: resume_only_pending[OF Cons.prems] resume.simps)
    also have "\<dots> = snd (for_each (iteration w a) (fc # rest) s)"
      by (rule li[OF _ Cons.prems]) simp
    finally show ?thesis .
  next
    case False
    then have "run_ops w a (map Op_resume (mail_conts a (fc # rest))) (settle (tool_loop w a (fc # rest) s))
        = run_ops w a (map Op_resume (mail_conts a rest))
            (settle (seq (iteration w a fc) (tool_loop w a rest) s))"
      by simp
    also have "\<dots> = snd (for_each (iteration w a) (fc # rest) s)"
      by (rule li[OF _ Cons.prems]) simp
    finally show ?thesis .
  qed
qed

lemma link_tool_calls:
  "pending s = [] \<Longrightarrow>
   run_ops w a (map Op_resume (tool_conts a m)) (settle (handle_tool_calls w a m s))
     = snd (complete_tools w a m s)"
proof (cases "toolCall m")
  case None
  then show ?thesis
    by (simp add: tool_conts_def handle_tool_calls_def complete_tools_def ret_def settle_simps)
next
  case (Some cs)
  assume p: "pending s = []"
  show ?thesis
  proof (cases cs)
    case None
    with Some show ?thesis
      by (simp add: tool_conts_def handle_tool_calls_def complete_tools_def throw_def settle_simps)
  next
    case (Some calls)
    with \<open>toolCall m = Some cs\<close> link_tool_loop[OF p, of w a calls] show ?thesis
      by (simp add: tool_conts_def handle_tool_calls_def complete_tools_def)
  qed
qed

lemma tool_loop_result:
  "fst (tool_loop w a calls s) = Inr (Some k) \<Longrightarrow> \<exists>fc rest. k = After_mail fc rest"
proof (induction calls arbitrary: s)
  case Nil
  then show ?case by (simp add: ret_def)
next
  case (Cons fc rest)
  show ?case
  proof (cases "mail_awaits a fc")
    case True
    with Cons.prems show ?thesis by (auto simp add: ret_def)
  next
    case False
    obtain r s1 where it: "iteration w a fc s = (r, s1)" by (cases "iteration w a fc s")
    with False Cons.prems have "fst (tool_loop w a rest s1) = Inr (Some k)"
      by (cases r) (simp_all add: seq_def bnd_def)
    then show ?thesis by (rule Cons.IH)
  qed
qed

lemma tool_calls_result:
  "fst (handle_tool_calls w a m s) = Inr (Some k) \<Longrightarrow> \<exists>fc rest. k = After_mail fc rest"
  by (auto simp add: handle_tool_calls_def ret_def throw_def split: option.splits
      dest: tool_loop_result)

lemma tool_calls_pending: "pending (snd (handle_tool_calls w a m s)) = pending s"
  using invariantD[OF frame_handle_tool_calls frame_refl, of s w a m] by (simp add: frame_def)

lemma decode_not_pending:
  assumes "pending s = []"
  shows "run_op w a (Op_resume (After_decode d m')) (settle (handle_tool_calls w a m s))
           = settle (handle_tool_calls w a m s)"
proof -
  obtain r s1 where h: "handle_tool_calls w a m s = (r, s1)" by (cases "handle_tool_calls w a m s")
  with tool_calls_pending[of w a m s] assms have p1: "pending s1 = []" by simp
  show ?thesis
  proof (cases r)
    case (Inl e)
    with h p1 show ?thesis by (simp add: settle_simps)
  next
    case (Inr ko)
    show ?thesis
    proof (cases ko)
      case None
      with Inr h p1 show ?thesis by (simp add: settle_simps)
    next
      case (Some k)
      with Inr h tool_calls_result[of w a m s k] obtain fc rest where "k = After_mail fc rest"
        by auto
      with Some Inr h p1 show ?thesis by (simp add: settle_simps)
    qed
  qed
qed

lemma link_no_await:
  assumes "pending s = []"
  shows "run_ops w a (map Op_resume (After_decode d m' # tool_conts a m))
           (settle (handle_tool_calls w a m s))
         = snd (complete_tools w a m s)"
  using decode_not_pending[OF assms, of w a d m' m] link_tool_calls[OF assms, of w a m]
  by simp

lemma finish_audio_pending:
  "pending (snd (try_catch (finish_audio w data) (\<lambda>err. ret ()) s)) = pending s"
  by (simp add: finish_audio_eq split: decode_outcome.splits)

lemma link_await:
  assumes p: "pending s = []" and d: "decodeAudioData w data \<noteq> Decode_throws"
  shows "run_ops w a (map Op_resume (After_decode data m # tool_conts a m))
           (settle (Inr (Some (After_decode data m)), s))
         = snd (seq (try_catch (finish_audio w data) (\<lambda>err. ret ())) (complete_tools w a m) s)"
proof -
  let ?s4 = "snd (try_catch (finish_audio w data) (\<lambda>err. ret ()) s)"
  have p4: "pending ?s4 = []" using p by (simp add: finish_audio_pending)
  have "settle (Inr (Some (After_decode data m)), s) = s\<lparr>pending := [After_decode data m]\<rparr>"
    using p by (simp add: settle_simps)
  then have "run_ops w a (map Op_resume (After_decode data m # tool_conts a m))
           (settle (Inr (Some (After_decode data m)), s))
      = run_ops w a (map Op_resume (tool_conts a m))
          (run_op w a (Op_resume (After_decode data m)) (s\<lparr>pending := [After_decode data m]\<rparr>))"
    by simp
  also have "\<dots> = run_ops w a (map Op_resume (tool_conts a m))
          (settle (seq (try_catch (finish_audio w data) (\<lambda>err. ret ())) (handle_tool_calls w a m) s))"
    by (simp only: resume_only_pending[OF p] resume.simps)
  also have "\<dots> = run_ops w a (map Op_resume (tool_conts a m)) (settle (handle_tool_calls w a m ?s4))"
    by (simp only: seq_returns[OF finish_audio_fst])
  also have "\<dots> = snd (complete_tools w a m ?s4)" by (rule link_tool_calls[OF p4])
  also have "\<dots> = snd (seq (try_catch (finish_audio w data) (\<lambda>err. ret ())) (complete_tools w a m) s)"
    by (simp only: seq_returns[OF finish_audio_fst])
  finally show ?thesis .
qed

lemma finish_audio_throws:
  "decodeAudioData w data = Decode_throws \<Longrightarrow>
   try_catch (finish_audio w data) (\<lambda>err. ret ()) s = (Inr (), s)"
  by (simp add: finish_audio_eq)

lemma link_audio:
  assumes p: "pending s = []"
  shows "run_ops w a (map Op_resume (case ad of None \<Rightarrow> tool_conts a m
                                      | Some data \<Rightarrow> After_decode data m # tool_conts a m))
           (settle (handle_audio w a t m ad s))
         = snd (seq (complete_audio w t ad) (complete_tools w a m) s)"
proof (cases ad)
  case None
  with link_tool_calls[OF p, of w a m] show ?thesis
    by (simp add: handle_audio_def complete_audio_def seq_def bnd_def ret_def)
next
  case (Some data)
  show ?thesis
  proof (cases "data \<noteq> [] \<and> audioContext s")
    case False
    with Some link_no_await[OF p, of w a data m m] show ?thesis
      by (auto simp add: handle_audio_def complete_audio_def seq_def bnd_def ret_def)
  next
    case True
    let ?s3 = "s\<lparr>isSpeaking := True, nextStartTime := max (nextStartTime s) t\<rparr>"
    have p3: "pending ?s3 = []" using p by simp
    have c: "seq (complete_audio w t ad) (complete_tools w a m) s
        = seq (try_catch (finish_audio w data) (\<lambda>err. ret ())) (complete_tools w a m) ?s3"
      using Some True by (simp add: complete_audio_def seq_def bnd_def modify_def)
    show ?thesis
    proof (cases "decodeAudioData w data = Decode_throws")
      case thr: True
      have "handle_audio w a t m ad s = handle_tool_calls w a m ?s3"
        using Some True thr by (simp add: handle_audio_def seq_def bnd_def modify_def)
      with Some link_no_await[OF p3, of w a data m m] c thr show ?thesis
        by (simp add: finish_audio_throws seq_def bnd_def)
    next
      case nothr: False
      have "handle_audio w a t m ad s = (Inr (Some (After_decode data m)), ?s3)"
        using Some True nothr
        by (cases "decodeAudioData w data")
           (simp_all add: handle_audio_def seq_def bnd_def modify_def ret_def)
      with Some link_await[OF p3 nothr, of a m] c show ?thesis by simp
    qed
  qed
qed

text \<open>
  The schedule \<open>to_completion\<close> computes the state of the handler run to its end at
  once.
\<close>

lemma link_message:
  assumes "pending s = []"
  shows "run_ops w a (to_completion a t m) s = snd (complete_message w a t m s)"
proof -
  let ?s2 = "after_signals w m s"
  have p2: "pending ?s2 = []" using assms by (simp add: after_signals_props)
  show ?thesis
  proof (cases "audioData_of m")
    case (Inl e)
    then show ?thesis
      using p2
      by (simp add: to_completion_def continuations_def audio_conts_def handler_unfold
          complete_unfold bnd_def lift_def settle_simps resumes_idle)
  next
    case (Inr ad)
    have k: "continuations a m = (case ad of None \<Rightarrow> tool_conts a m
                                   | Some data \<Rightarrow> After_decode data m # tool_conts a m)"
      using Inr by (simp add: continuations_def audio_conts_def split: option.splits)
    from link_audio[where ad = ad and m = m and t = t and w = w and a = a, OF p2] Inr show ?thesis
      by (simp add: to_completion_def k handler_unfold complete_unfold bnd_def lift_def)
  qed
qed

lemma complete_message_pending: "pending (snd (complete_message w a t m s)) = pending s"
proof -
  have 1: "pending (snd (complete_tools w a m s')) = pending s'" for s'
    using invariantD[OF frame_complete_tools frame_refl, of s' w a m] by (simp add: frame_def)
  have 2: "pending (snd (complete_audio w t ad s')) = pending s'" for ad s'
    by (simp add: complete_audio_eq finish_audio_pending split: option.splits)
  have 3: "fst (complete_audio w t ad s') = Inr ()" for ad s'
    by (simp add: complete_audio_eq)
  show ?thesis
    by (cases "audioData_of m")
       (simp_all add: complete_unfold bnd_def lift_def seq_returns[OF 3] 1 2 after_signals_props)
qed

lemma link_messages:
  "pending s = [] \<Longrightarrow>
   run_ops w a (run_messages a ms) s
     = foldl (\<lambda>s tm. snd (complete_message w a (fst tm) (snd tm) s)) s ms"
proof (induction ms arbitrary: s)
  case Nil
  then show ?case by (simp add: run_messages_def)
next
  case (Cons tm ms)
  have "pending (snd (complete_message w a (fst tm) (snd tm) s)) = []"
    using Cons.prems by (simp add: complete_message_pending)
  from Cons.IH[OF this] link_message[OF Cons.prems, of w a "fst tm" "snd tm"] show ?case
    by (simp add: run_messages_def run_ops_append)
qed


section \<open>Properties of the answers to a batch of function calls\<close>


lemma complete_audio_fst: "fst (complete_audio w t ad s) = Inr ()"
  by (simp add: complete_audio_eq)

lemma complete_with_audio:
  "audioData_of m = Inr ad \<Longrightarrow>
   complete_message w a t m s
     = complete_tools w a m (snd (complete_audio w t ad (after_signals w m s)))"
  by (simp add: complete_unfold bnd_def lift_def seq_returns[OF complete_audio_fst])

lemma complete_without_audio:
  "audioData_of m = Inl e \<Longrightarrow> complete_message w a t m s = (Inl e, after_signals w m s)"
  by (simp add: complete_unfold bnd_def lift_def)






text \<open>
  The hypotheses of the theorem cannot be left out.  A call of \<^verbatim>\<open>create_task\<close> without
  \<^verbatim>\<open>args\<close> stores its task and then throws at \<^verbatim>\<open>fc.args.title\<close>: neither it nor the call
  after it is answered.  When \<^verbatim>\<open>sendToolResponse\<close> throws at the first call, the second
  call is not run.  When React does not run the updater of \<^verbatim>\<open>save_memory\<close> at once, a
  call of \<^verbatim>\<open>get_memories\<close> after it in the batch reads the stored text without the new
  memory, and the memory is stored at the next render.
\<close>

lemma task_without_args_example:
  "fst (handleSessionMessage quiet_world False 0 (tool_message [bare_task, dance]) connected_state)
     = Inl TypeError
   \<and> tool_responses (trace (run_ops quiet_world False
        (to_completion False 0 (tool_message [bare_task, dance])) connected_state)) = []
   \<and> localStorage (run_ops quiet_world False
        (to_completion False 0 (tool_message [bare_task, dance])) connected_state) TASKS_KEY \<noteq> None"
  by (simp add: to_completion_def continuations_def audio_conts_def tool_conts_def mail_awaits_def
      settle_def handler_unfold after_signals_def handle_audio_def handle_interruption_eq
      handle_transcriptions_def handle_tool_calls_def tool_message_def interrupted_of_def
      audioData_of_def iteration_def run_function_def bare_task_def dance_def create_task_def
      parse_item_def setItem_def respond_def prog_defs tick_def Let_def arg_def spread_def
      connected_state_def initial_state_def)

lemma throwing_response_example:
  "fst (handleSessionMessage hostile_world False 0 (tool_message [dance, buy_milk]) connected_state)
     = Inl DOMException
   \<and> tool_responses (trace (run_ops hostile_world False
        (to_completion False 0 (tool_message [dance, buy_milk])) connected_state))
      = [\<lparr>resp_id = Some ''b'', resp_name = Some ''dance'', resp_result = JStr ''ok''\<rparr>]
   \<and> localStorage (run_ops hostile_world False
        (to_completion False 0 (tool_message [dance, buy_milk])) connected_state) TASKS_KEY = None"
  by (simp add: to_completion_def continuations_def audio_conts_def tool_conts_def mail_awaits_def
      settle_def handler_unfold after_signals_def handle_audio_def handle_interruption_eq
      handle_transcriptions_def handle_tool_calls_def tool_message_def interrupted_of_def
      audioData_of_def iteration_def run_function_def buy_milk_def dance_def
      respond_def prog_defs tick_def Let_def
      hostile_world_def quiet_world_def connected_state_def initial_state_def)

lemma get_after_save_example:
  "tool_responses (trace (run_ops quiet_world False
        (to_completion False 0 (tool_message [remember, recall])) connected_state))
      = [\<lparr>resp_id = Some ''e'', resp_name = Some ''save_memory'',
           resp_result = JStr ''Memory saved successfully.''\<rparr>,
         \<lparr>resp_id = Some ''f'', resp_name = Some ''get_memories'',
           resp_result = JArr [JObj [(''id'', JStr ''uuid''), (''content'', JStr ''tea''),
                                     (''timestamp'', JNum 0)]]\<rparr>]
   \<and> tool_responses (trace (run_ops lazy_world False
        (to_completion False 0 (tool_message [remember, recall])) connected_state))
      = [\<lparr>resp_id = Some ''e'', resp_name = Some ''save_memory'',
           resp_result = JStr ''Memory saved successfully.''\<rparr>,
         \<lparr>resp_id = Some ''f'', resp_name = Some ''get_memories'', resp_result = JArr []\<rparr>]
   \<and> memories (run_ops lazy_world False
        (to_completion False 0 (tool_message [remember, recall])) connected_state) = []
   \<and> memories (run_ops lazy_world False
        (to_completion False 0 (tool_message [remember, recall]) @ [Op_render]) connected_state)
      = [JObj [(''id'', JStr ''uuid''), (''content'', JStr ''tea''), (''timestamp'', JNum 0)]]"
  by (simp add: to_completion_def continuations_def audio_conts_def tool_conts_def mail_awaits_def
      settle_def handler_unfold after_signals_def handle_audio_def handle_interruption_eq
      handle_transcriptions_def handle_tool_calls_def tool_message_def interrupted_of_def
      audioData_of_def iteration_def run_function_def remember_def recall_def persistMemory_def
      add_memory_def render_def parse_item_def setItem_def JSON_stringify_def MEMORY_KEY_def
      respond_def prog_defs tick_def Let_def arg_def
      lazy_world_def quiet_world_def connected_state_def initial_state_def)


section \<open>Operations that start no source\<close>

lemma quiet_refl: "quiet s s"
  by (simp add: quiet_def)

lemma quiet_trans: "quiet s s1 \<Longrightarrow> quiet s1 s2 \<Longrightarrow> quiet s s2"
  by (auto simp add: quiet_def started_append)

lemma quiet_invariant: "(\<And>s. quiet s (snd (m s))) \<Longrightarrow> invariant (quiet s0) m"
  unfolding invariant_def using quiet_trans by blast

lemma invariant_quiet:
  assumes "\<And>s0. invariant (quiet s0) m"
  shows "quiet s (snd (m s))"
  by (rule invariantD[OF assms[of s] quiet_refl])

lemma quiet_modify:
  "(\<And>s. nextStartTime (f s) = nextStartTime s \<and> trace (f s) = trace s) \<Longrightarrow>
   invariant (quiet s0) (modify f)"
  by (rule quiet_invariant) (simp add: modify_def quiet_def)

lemma quiet_emit: "started [ev] = [] \<Longrightarrow> invariant (quiet s0) (emit ev)"
  by (rule quiet_invariant) (simp add: emit_def modify_def quiet_def)

lemma quiet_tick: "invariant (quiet s0) tick"
  by (rule quiet_invariant) (simp add: tick_def quiet_def)

lemma io_no_starts: "\<forall>ev\<in>set evs. is_io ev \<Longrightarrow> started evs = []"
  by (induction evs rule: started.induct) (simp_all add: is_io_def)

lemma quiet_of_frame: "frame is_io s s' \<Longrightarrow> quiet s s'"
  by (auto simp add: frame_def quiet_def io_no_starts)

lemma startConnection_quiet: "quiet s (snd (startConnection w s))"
proof (rule invariant_quiet)
  fix s0 show "invariant (quiet s0) (startConnection w)"
    unfolding startConnection_def setStatus_def
    by (intro inv_intros quiet_modify quiet_emit quiet_tick) simp_all
qed

lemma onopen_quiet: "quiet s (snd (onopen s))"
proof (rule invariant_quiet)
  fix s0 show "invariant (quiet s0) onopen"
    unfolding onopen_def setStatus_def
    by (intro inv_intros quiet_modify quiet_emit quiet_tick) simp_all
qed

lemma onerror_quiet: "quiet s (snd (onerror w s))"
  by (simp add: quiet_def onerror_def seq_def bnd_def cleanupAudioNodes_eq setStatus_def
      modify_def emit_def split: option.splits)

lemma onaudioprocess_quiet: "quiet s (snd (onaudioprocess w p f s))"
  by (auto simp add: quiet_def onaudioprocess_def prog_defs tick_def
      split: option.splits sum.splits settled.splits)

lemma onended_quiet: "quiet s (snd (onended x s))"
  by (simp add: quiet_def onended_def prog_defs)

lemma handleGmailAuth_quiet: "quiet s (snd (handleGmailAuth token s))"
  by (simp add: quiet_def handleGmailAuth_def setAccessToken_def prog_defs)

lemma render_quiet: "quiet s (snd (render w s))"
  by (rule quiet_of_frame[OF invariantD[OF frame_render frame_refl]])

lemma tool_calls_quiet: "quiet s (snd (handle_tool_calls w a m s))"
  by (rule quiet_of_frame[OF invariantD[OF frame_handle_tool_calls frame_refl]])

lemma settle_fields:
  "nextStartTime (settle r) = nextStartTime (snd r)"
  "trace (settle r) = trace (snd r)"
  "audioContext (settle r) = audioContext (snd r)"
  by (cases r; cases "fst r"; cases "projr (fst r)"; simp add: settle_def)+

lemma quiet_settle: "quiet s (snd r) \<Longrightarrow> quiet s (settle r)"
  by (simp add: quiet_def settle_fields)

lemma handle_audio_quiet: "quiet s (snd (handle_audio w a t m ad s))"
proof (cases ad)
  case None
  then show ?thesis by (simp add: handle_audio_def tool_calls_quiet)
next
  case (Some data)
  let ?s3 = "s\<lparr>isSpeaking := True, nextStartTime := max (nextStartTime s) t\<rparr>"
  have q3: "quiet s ?s3" by (simp add: quiet_def)
  show ?thesis
  proof (cases "data \<noteq> [] \<and> audioContext s")
    case False
    with Some show ?thesis by (auto simp add: handle_audio_def tool_calls_quiet)
  next
    case True
    have "snd (handle_audio w a t m ad s) = ?s3
        \<or> snd (handle_audio w a t m ad s) = snd (handle_tool_calls w a m ?s3)"
      using Some True
      by (cases "decodeAudioData w data")
         (simp_all add: handle_audio_def seq_def bnd_def modify_def ret_def)
    with q3 quiet_trans[OF q3 tool_calls_quiet[of ?s3 w a m]] show ?thesis by auto
  qed
qed

lemma message_quiet:
  assumes "\<not> interrupted_of m"
  shows "quiet s (run_op w a (Op_message t m) s)"
proof -
  have q2: "quiet s (after_signals w m s)"
    using assms by (simp add: quiet_def after_signals_props)
  have "quiet s (snd (handleSessionMessage w a t m s))"
  proof (cases "audioData_of m")
    case (Inl e)
    with q2 show ?thesis by (simp add: handler_unfold bnd_def lift_def)
  next
    case (Inr ad)
    with quiet_trans[OF q2 handle_audio_quiet[of "after_signals w m s" w a t m ad]]
    show ?thesis by (simp add: handler_unfold bnd_def lift_def)
  qed
  then show ?thesis by (simp add: quiet_settle)
qed


section \<open>Properties of the scheduling of audio chunks\<close>

text \<open>
  What an operation that does not call \<open>stopAllAudio\<close> does to the timeline: either it is
  quiet, or it is the resumption of a handler whose chunk has decoded, which starts one
  source at the cursor and moves the cursor to the end of that source.
\<close>

lemma resume_decode_effect:
  "quiet s (snd (resume w a (After_decode data m) s))
   \<or> (\<exists>x evs. trace (snd (resume w a (After_decode data m) s)) = trace s @ evs
        \<and> started evs = [x] \<and> src_start x = nextStartTime s
        \<and> nextStartTime (snd (resume w a (After_decode data m) s))
            = float_add w (src_start x) (src_duration x)
        \<and> decodeAudioData w data = Buffer (src_duration x))"
proof -
  let ?s4 = "snd (try_catch (finish_audio w data) (\<lambda>err. ret ()) s)"
  let ?s' = "snd (resume w a (After_decode data m) s)"
  have r: "?s' = snd (handle_tool_calls w a m ?s4)"
    by (simp only: resume.simps seq_returns[OF finish_audio_fst])
  have fr: "frame is_io ?s4 ?s'"
    unfolding r by (rule invariantD[OF frame_handle_tool_calls frame_refl])
  then obtain evs where e: "trace ?s' = trace ?s4 @ evs" "started evs = []"
    "nextStartTime ?s' = nextStartTime ?s4"
    by (auto simp add: frame_def io_no_starts)
  show ?thesis
  proof (cases "decodeAudioData w data")
    case (Buffer d)
    let ?x = "\<lparr>src_id = ticks s, src_start = nextStartTime s, src_duration = d\<rparr>"
    have "trace ?s' = trace s @ (Ev_source_start ?x # evs)"
      and "started (Ev_source_start ?x # evs) = [?x]"
      and "nextStartTime ?s' = float_add w (src_start ?x) (src_duration ?x)"
      using e Buffer by (simp_all add: finish_audio_eq)
    with Buffer show ?thesis by (intro disjI2 exI[of _ ?x] exI[of _ "Ev_source_start ?x # evs"]) simp
  next
    case Decode_throws
    then have "?s4 = s" by (simp add: finish_audio_eq)
    with quiet_of_frame[OF fr] show ?thesis by simp
  next
    case Decode_rejects
    then have "?s4 = s" by (simp add: finish_audio_eq)
    with quiet_of_frame[OF fr] show ?thesis by simp
  qed
qed

lemma resume_mail_quiet: "quiet s (snd (resume w a (After_mail fc rest) s))"
proof -
  have "invariant (frame is_io s) (seq (iteration w a fc) (tool_loop w a rest))"
    by (intro inv_intros frame_iteration frame_tool_loop)
  from quiet_of_frame[OF invariantD[OF this frame_refl]] show ?thesis by simp
qed

lemma op_effect:
  assumes "\<not> calls_stopAllAudio op"
  shows "quiet s (run_op w a op s)
   \<or> (\<exists>x evs. trace (run_op w a op s) = trace s @ evs
        \<and> started evs = [x] \<and> src_start x = nextStartTime s
        \<and> nextStartTime (run_op w a op s) = float_add w (src_start x) (src_duration x)
        \<and> (\<exists>data. decodeAudioData w data = Buffer (src_duration x)))"
proof (cases op)
  case (Op_message t m)
  with assms message_quiet[of m s w a t] show ?thesis by simp
next
  case (Op_resume k)
  show ?thesis
  proof (cases "k \<in> set (pending s)")
    case False
    with Op_resume show ?thesis by (simp add: quiet_refl)
  next
    case True
    let ?s0 = "s\<lparr>pending := remove1 k (pending s)\<rparr>"
    have s0: "trace ?s0 = trace s" "nextStartTime ?s0 = nextStartTime s" by simp_all
    have run: "run_op w a op s = settle (resume w a k ?s0)" using Op_resume True by simp
    show ?thesis
    proof (cases k)
      case (After_mail fc rest)
      with resume_mail_quiet[of ?s0 w a fc rest] have "quiet s (snd (resume w a k ?s0))"
        by (simp add: quiet_def)
      then show ?thesis unfolding run by (simp add: quiet_settle)
    next
      case (After_decode data m)
      from resume_decode_effect[of ?s0 w a data m]
      have "quiet s (snd (resume w a k ?s0))
         \<or> (\<exists>x evs. trace (snd (resume w a k ?s0)) = trace s @ evs
              \<and> started evs = [x] \<and> src_start x = nextStartTime s
              \<and> nextStartTime (snd (resume w a k ?s0)) = float_add w (src_start x) (src_duration x)
              \<and> decodeAudioData w data = Buffer (src_duration x))"
        unfolding After_decode by (simp add: quiet_def)
      then show ?thesis
      proof
        assume "quiet s (snd (resume w a k ?s0))"
        then show ?thesis unfolding run by (simp add: quiet_settle)
      next
        assume "\<exists>x evs. trace (snd (resume w a k ?s0)) = trace s @ evs
              \<and> started evs = [x] \<and> src_start x = nextStartTime s
              \<and> nextStartTime (snd (resume w a k ?s0)) = float_add w (src_start x) (src_duration x)
              \<and> decodeAudioData w data = Buffer (src_duration x)"
        then show ?thesis unfolding run settle_fields by blast
      qed
    qed
  qed
next
  case Op_render
  then show ?thesis by (simp add: render_quiet)
next
  case Op_start
  then show ?thesis by (simp add: startConnection_quiet)
next
  case Op_end
  with assms show ?thesis by simp
next
  case Op_open
  then show ?thesis by (simp add: onopen_quiet)
next
  case Op_error
  then show ?thesis by (simp add: onerror_quiet)
next
  case Op_close
  with assms show ?thesis by simp
next
  case (Op_audioprocess p f)
  then show ?thesis by (simp add: onaudioprocess_quiet)
next
  case (Op_ended x)
  then show ?thesis by (simp add: onended_quiet)
next
  case (Op_gmail_auth token)
  then show ?thesis by (simp add: handleGmailAuth_quiet)
qed

lemma no_overlap_snoc:
  "no_overlap w (xs @ [y]) \<longleftrightarrow>
     no_overlap w xs
     \<and> (xs \<noteq> [] \<longrightarrow> float_add w (src_start (last xs)) (src_duration (last xs)) \<le> src_start y)"
  by (induction w xs rule: no_overlap.induct) auto

lemma run_ops_chain:
  assumes "\<forall>op\<in>set ops. \<not> calls_stopAllAudio op"
    and "trace s = tr @ evs0"
    and "no_overlap w (started evs0)"
    and "started evs0 \<noteq> [] \<longrightarrow>
           float_add w (src_start (last (started evs0))) (src_duration (last (started evs0)))
             \<le> nextStartTime s"
  shows "\<exists>evs. trace (run_ops w a ops s) = tr @ evs \<and> no_overlap w (started evs)"
  using assms
proof (induction ops arbitrary: s evs0)
  case Nil
  then show ?case by auto
next
  case (Cons op ops)
  let ?s1 = "run_op w a op s"
  from Cons.prems(1) have n: "\<not> calls_stopAllAudio op"
    and rest: "\<forall>op\<in>set ops. \<not> calls_stopAllAudio op" by simp_all
  from op_effect[OF n, of s w a]
  have "\<exists>evs1. trace ?s1 = tr @ evs1 \<and> no_overlap w (started evs1)
      \<and> (started evs1 \<noteq> [] \<longrightarrow>
           float_add w (src_start (last (started evs1))) (src_duration (last (started evs1)))
             \<le> nextStartTime ?s1)"
  proof
    assume "quiet s ?s1"
    then obtain evs where e: "nextStartTime s \<le> nextStartTime ?s1" "trace ?s1 = trace s @ evs"
      "started evs = []" by (auto simp add: quiet_def)
    have "trace ?s1 = tr @ (evs0 @ evs)" using e(2) Cons.prems(2) by simp
    moreover have "started (evs0 @ evs) = started evs0" using e(3) by (simp add: started_append)
    ultimately show ?thesis using Cons.prems(3,4) e(1) by (intro exI[of _ "evs0 @ evs"]) auto
  next
    assume "\<exists>x evs. trace ?s1 = trace s @ evs
        \<and> started evs = [x] \<and> src_start x = nextStartTime s
        \<and> nextStartTime ?s1 = float_add w (src_start x) (src_duration x)
        \<and> (\<exists>data. decodeAudioData w data = Buffer (src_duration x))"
    then obtain x evs where e: "trace ?s1 = trace s @ evs" "started evs = [x]"
      "src_start x = nextStartTime s"
      "nextStartTime ?s1 = float_add w (src_start x) (src_duration x)" by blast
    have "trace ?s1 = tr @ (evs0 @ evs)" using e(1) Cons.prems(2) by simp
    moreover have "started (evs0 @ evs) = started evs0 @ [x]" using e(2) by (simp add: started_append)
    ultimately show ?thesis using Cons.prems(3,4) e(3,4)
      by (intro exI[of _ "evs0 @ evs"]) (simp add: no_overlap_snoc)
  qed
  then obtain evs1 where "trace ?s1 = tr @ evs1" "no_overlap w (started evs1)"
      "started evs1 \<noteq> [] \<longrightarrow>
           float_add w (src_start (last (started evs1))) (src_duration (last (started evs1)))
             \<le> nextStartTime ?s1" by blast
  from Cons.IH[OF rest this] show ?case by simp
qed

lemma run_ops_no_overlap:
  assumes "\<forall>op\<in>set ops. \<not> calls_stopAllAudio op"
  shows "no_overlap w (started (new_events s (run_ops w a ops s)))"
proof -
  from run_ops_chain[OF assms, of s "trace s" "[]" w a] obtain evs where
    "trace (run_ops w a ops s) = trace s @ evs" "no_overlap w (started evs)" by auto
  with new_events_append[OF this(1)] show ?thesis by simp
qed

lemma message_effect:
  assumes "audioContext s" and "\<not> interrupted_of m"
  shows "audioContext (snd (complete_message w a t m s))"
    and "nextStartTime (snd (complete_message w a t m s))
           = (case arrival w (t, m) of None \<Rightarrow> nextStartTime s
              | Some x \<Rightarrow> advance w (nextStartTime s) x)"
    and "\<exists>evs. trace (snd (complete_message w a t m s)) = trace s @ evs
           \<and> starts evs = (case arrival w (t, m) of None \<Rightarrow> []
                           | Some x \<Rightarrow> (case snd x of Buffer d \<Rightarrow> [max (nextStartTime s) (fst x)]
                                        | _ \<Rightarrow> []))"
proof -
  let ?s2 = "after_signals w m s"
  let ?s' = "snd (complete_message w a t m s)"
  have s2: "audioContext ?s2" "nextStartTime ?s2 = nextStartTime s" "trace ?s2 = trace s"
    using assms by (simp_all add: after_signals_props)
  have "audioContext ?s'
    \<and> nextStartTime ?s' = (case arrival w (t, m) of None \<Rightarrow> nextStartTime s
              | Some x \<Rightarrow> advance w (nextStartTime s) x)
    \<and> (\<exists>evs. trace ?s' = trace s @ evs
           \<and> starts evs = (case arrival w (t, m) of None \<Rightarrow> []
                           | Some x \<Rightarrow> (case snd x of Buffer d \<Rightarrow> [max (nextStartTime s) (fst x)]
                                        | _ \<Rightarrow> [])))"
  proof (cases "audioData_of m")
    case (Inl e)
    then show ?thesis
      using s2 by (simp add: complete_without_audio arrival_def starts_def)
  next
    case (Inr ad)
    let ?s3 = "snd (complete_audio w t ad ?s2)"
    have c: "?s' = snd (complete_tools w a m ?s3)" by (simp add: complete_with_audio[OF Inr])
    have "frame is_io ?s3 ?s'"
      unfolding c by (rule invariantD[OF frame_complete_tools frame_refl])
    then obtain evs where e: "trace ?s' = trace ?s3 @ evs" "started evs = []"
      "nextStartTime ?s' = nextStartTime ?s3" "audioContext ?s' = audioContext ?s3"
      by (auto simp add: frame_def io_no_starts)
    have 3: "audioContext ?s3
      \<and> nextStartTime ?s3 = (case arrival w (t, m) of None \<Rightarrow> nextStartTime s
              | Some x \<Rightarrow> advance w (nextStartTime s) x)
      \<and> (\<exists>pre. trace ?s3 = trace s @ pre
           \<and> starts pre = (case arrival w (t, m) of None \<Rightarrow> []
                           | Some x \<Rightarrow> (case snd x of Buffer d \<Rightarrow> [max (nextStartTime s) (fst x)]
                                        | _ \<Rightarrow> [])))"
      using s2 Inr
      by (auto simp add: complete_audio_eq finish_audio_eq arrival_def advance_def starts_def
          split: option.splits decode_outcome.splits)
    then obtain pre where p: "trace ?s3 = trace s @ pre"
      "starts pre = (case arrival w (t, m) of None \<Rightarrow> []
                           | Some x \<Rightarrow> (case snd x of Buffer d \<Rightarrow> [max (nextStartTime s) (fst x)]
                                        | _ \<Rightarrow> []))" by blast
    have "trace ?s' = trace s @ (pre @ evs)" using e(1) p(1) by simp
    moreover have "starts (pre @ evs) = starts pre" using e(2) by (simp add: starts_def started_append)
    ultimately show ?thesis using 3 e(3,4) p(2) by (intro conjI exI[of _ "pre @ evs"]) simp_all
  qed
  then show "audioContext ?s'"
    and "nextStartTime ?s' = (case arrival w (t, m) of None \<Rightarrow> nextStartTime s
              | Some x \<Rightarrow> advance w (nextStartTime s) x)"
    and "\<exists>evs. trace ?s' = trace s @ evs
           \<and> starts evs = (case arrival w (t, m) of None \<Rightarrow> []
                           | Some x \<Rightarrow> (case snd x of Buffer d \<Rightarrow> [max (nextStartTime s) (fst x)]
                                        | _ \<Rightarrow> []))"
    by blast+
qed

lemma messages_schedule:
  assumes "audioContext s" and "\<forall>tm\<in>set ms. \<not> interrupted_of (snd tm)"
  shows "\<exists>evs. trace (foldl (\<lambda>s tm. snd (complete_message w a (fst tm) (snd tm) s)) s ms)
                 = trace s @ evs
      \<and> starts evs = schedule w (nextStartTime s) (arrivals w ms)"
  using assms
proof (induction ms arbitrary: s)
  case Nil
  then show ?case by (simp add: starts_def)
next
  case (Cons tm ms)
  let ?s1 = "snd (complete_message w a (fst tm) (snd tm) s)"
  from Cons.prems(2) have m: "\<not> interrupted_of (snd tm)"
    and rest: "\<forall>tm\<in>set ms. \<not> interrupted_of (snd tm)" by simp_all
  note E = message_effect[OF Cons.prems(1) m, of w a "fst tm"]
  from E(3) obtain evs1 where e1: "trace ?s1 = trace s @ evs1"
    "starts evs1 = (case arrival w tm of None \<Rightarrow> []
                    | Some x \<Rightarrow> (case snd x of Buffer d \<Rightarrow> [max (nextStartTime s) (fst x)]
                                 | _ \<Rightarrow> []))" by auto
  from Cons.IH[OF E(1) rest] obtain evs where
    e: "trace (foldl (\<lambda>s tm. snd (complete_message w a (fst tm) (snd tm) s)) ?s1 ms)
          = trace ?s1 @ evs"
       "starts evs = schedule w (nextStartTime ?s1) (arrivals w ms)" by blast
  have "trace (foldl (\<lambda>s tm. snd (complete_message w a (fst tm) (snd tm) s)) s (tm # ms))
          = trace s @ (evs1 @ evs)"
    using e(1) e1(1) by simp
  moreover have "starts (evs1 @ evs) = schedule w (nextStartTime s) (arrivals w (tm # ms))"
    using e(2) e1(2) E(2)
    by (cases "arrival w tm") (simp_all add: starts_def started_append)
  ultimately show ?case by blast
qed

lemma schedule_closed:
  assumes "\<forall>j<length xs. fst (xs ! j) \<le> foldl (float_add w) K (buffers (take j xs))"
  shows "schedule w K xs
    = map (\<lambda>i. foldl (float_add w) K (take i (buffers xs))) [0..<length (buffers xs)]"
  using assms
proof (induction xs arbitrary: K)
  case Nil
  then show ?case by simp
next
  case (Cons x xs)
  obtain t o' where x: "x = (t, o')" by (cases x)
  from Cons.prems have t: "t \<le> K" using x by auto
  let ?K' = "advance w K x"
  have K': "?K' = (case o' of Buffer d \<Rightarrow> float_add w K d | _ \<Rightarrow> K)"
    using t x by (simp add: advance_def max_def split: decode_outcome.splits)
  have "\<forall>j<length xs. fst (xs ! j) \<le> foldl (float_add w) ?K' (buffers (take j xs))"
  proof (intro allI impI)
    fix j assume "j < length xs"
    with Cons.prems have "fst ((x # xs) ! Suc j) \<le> foldl (float_add w) K (buffers (take (Suc j) (x # xs)))"
      by (metis Suc_less_eq length_Cons)
    then show "fst (xs ! j) \<le> foldl (float_add w) ?K' (buffers (take j xs))"
      using x K' by (cases o') simp_all
  qed
  from Cons.IH[OF this]
  have IH: "schedule w ?K' xs
    = map (\<lambda>i. foldl (float_add w) ?K' (take i (buffers xs))) [0..<length (buffers xs)]" .
  show ?case
  proof (cases o')
    case (Buffer d)
    have "schedule w K (x # xs) = K # schedule w ?K' xs"
      using x Buffer t by (simp add: max_def)
    also have "\<dots> = K # map (\<lambda>i. foldl (float_add w) (float_add w K d) (take i (buffers xs)))
                          [0..<length (buffers xs)]"
      using IH K' Buffer by simp
    also have "\<dots> = map (\<lambda>i. foldl (float_add w) K (take i (buffers (x # xs))))
                        [0..<length (buffers (x # xs))]"
      using x Buffer by (simp add: map_upt_Suc del: upt_Suc)
    finally show ?thesis .
  next
    case Decode_throws
    with x IH K' show ?thesis by simp
  next
    case Decode_rejects
    with x IH K' show ?thesis by simp
  qed
qed

lemma schedule_on_time:
  assumes "\<forall>j. 0 < j \<and> j < length xs \<longrightarrow>
      fst (xs ! j) \<le> foldl (float_add w) (max c (fst (xs ! 0))) (buffers (take j xs))"
  shows "schedule w c xs
    = map (\<lambda>i. foldl (float_add w) (max c (fst (xs ! 0))) (take i (buffers xs)))
        [0..<length (buffers xs)]"
proof (cases xs)
  case Nil
  then show ?thesis by simp
next
  case (Cons x ys)
  let ?K = "max c (fst x)"
  have same: "schedule w c xs = schedule w ?K xs"
    using Cons by (simp add: advance_def split: decode_outcome.splits)
  have "\<forall>j<length xs. fst (xs ! j) \<le> foldl (float_add w) ?K (buffers (take j xs))"
  proof (intro allI impI)
    fix j assume j: "j < length xs"
    show "fst (xs ! j) \<le> foldl (float_add w) ?K (buffers (take j xs))"
    proof (cases j)
      case 0
      with Cons show ?thesis by simp
    next
      case (Suc i)
      with assms j Cons show ?thesis by auto
    qed
  qed
  from schedule_closed[OF this] same Cons show ?thesis by simp
qed

text \<open>
  C1, as the code has it.  Whatever the order in which the event loop takes the
  operations of the program, as long as none of them calls \<open>stopAllAudio\<close>, no source
  starts before the end that the program has computed for the source started before it:
  the chunks do not overlap.  The start times themselves depend on the order.  When the
  handler of each message runs to its end before the next message is handled, from a
  state where the output context exists and no handler awaits, and no message carries the
  interruption signal, each chunk that decodes starts at the later of two times: the
  cursor and the time of the device clock when the chunk arrives; the arrival of a
  chunk that does not decode moves the cursor to the later of the two.  When,
  moreover, no chunk after the first arrives later than the cursor stands, the start time
  of the \<open>i\<close>-th chunk that decodes is \<open>max cursor now\<close>, taken at the first chunk, with the
  durations of the chunks before it added to it one after the other, in the arithmetic of
  the program: the chunks play back to back.
\<close>

theorem chunk_start_times:
  "((\<forall>op\<in>set ops. \<not> calls_stopAllAudio op) \<longrightarrow>
       no_overlap w (started (new_events s (run_ops w a ops s))))
   \<and> (audioContext s \<and> pending s = [] \<and> (\<forall>tm\<in>set ms. \<not> interrupted_of (snd tm)) \<longrightarrow>
       starts (new_events s (run_ops w a (run_messages a ms) s))
         = schedule w (nextStartTime s) (arrivals w ms)
       \<and> ((\<forall>j. 0 < j \<and> j < length (arrivals w ms) \<longrightarrow>
              fst (arrivals w ms ! j)
                \<le> foldl (float_add w) (max (nextStartTime s) (fst (arrivals w ms ! 0)))
                     (buffers (take j (arrivals w ms))))
          \<longrightarrow> starts (new_events s (run_ops w a (run_messages a ms) s))
                = map (\<lambda>i. foldl (float_add w) (max (nextStartTime s) (fst (arrivals w ms ! 0)))
                              (take i (buffers (arrivals w ms))))
                    [0..<length (buffers (arrivals w ms))]))"
proof (intro conjI impI)
  assume "\<forall>op\<in>set ops. \<not> calls_stopAllAudio op"
  then show "no_overlap w (started (new_events s (run_ops w a ops s)))"
    by (rule run_ops_no_overlap)
next
  assume h: "audioContext s \<and> pending s = [] \<and> (\<forall>tm\<in>set ms. \<not> interrupted_of (snd tm))"
  then have p: "pending s = []" and ctx: "audioContext s"
    and ni: "\<forall>tm\<in>set ms. \<not> interrupted_of (snd tm)" by blast+
  from messages_schedule[OF ctx ni, of w a] obtain evs where
    "trace (foldl (\<lambda>s tm. snd (complete_message w a (fst tm) (snd tm) s)) s ms) = trace s @ evs"
    "starts evs = schedule w (nextStartTime s) (arrivals w ms)" by blast
  then show S: "starts (new_events s (run_ops w a (run_messages a ms) s))
         = schedule w (nextStartTime s) (arrivals w ms)"
    by (simp add: link_messages[OF p] new_events_append)
  assume "\<forall>j. 0 < j \<and> j < length (arrivals w ms) \<longrightarrow>
              fst (arrivals w ms ! j)
                \<le> foldl (float_add w) (max (nextStartTime s) (fst (arrivals w ms ! 0)))
                     (buffers (take j (arrivals w ms)))"
  from schedule_on_time[OF this] S
  show "starts (new_events s (run_ops w a (run_messages a ms) s))
                = map (\<lambda>i. foldl (float_add w) (max (nextStartTime s) (fst (arrivals w ms ! 0)))
                              (take i (buffers (arrivals w ms))))
                    [0..<length (buffers (arrivals w ms))]"
    by simp
qed

lemma audio_message_simps:
  "\<not> interrupted_of (audio_message d)"
  "audioData_of (audio_message d) = Inr (Some d)"
  "toolCall (audio_message d) = None"
  "d \<noteq> [] \<Longrightarrow> arrival quiet_world (t, audio_message d) = Some (t, Buffer 1)"
  by (simp_all add: audio_message_def interrupted_of_def audioData_of_def arrival_def
      quiet_world_def)

lemma quiet_world_simps:
  "decodeAudioData quiet_world d = Buffer 1"
  "float_add quiet_world x y = x + y"
  by (simp_all add: quiet_world_def)

text \<open>
  The theorem at three chunks of one second that arrive at the times 0, 5.5 and 7 while
  the cursor is at 5: they start at 5, 6 and 7.
\<close>

theorem chunk_start_times_witness:
  "audioContext connected_state
   \<and> pending connected_state = []
   \<and> \<not> interrupted_of (audio_message ''a'') \<and> \<not> interrupted_of (audio_message ''b'')
   \<and> \<not> interrupted_of (audio_message ''c'')
   \<and> \<not> calls_stopAllAudio (Op_message 0 (audio_message ''a''))
   \<and> \<not> calls_stopAllAudio (Op_resume (After_decode ''a'' (audio_message ''a'')))
   \<and> nextStartTime connected_state = 5
   \<and> arrivals quiet_world on_time_chunks = [(0, Buffer 1), (11/2, Buffer 1), (7, Buffer 1)]
   \<and> no_overlap quiet_world (started (new_events connected_state
        (run_ops quiet_world False (run_messages False on_time_chunks) connected_state)))
   \<and> starts (new_events connected_state
        (run_ops quiet_world False (run_messages False on_time_chunks) connected_state))
       = [5, 6, 7]"
proof -
  have ctx: "audioContext connected_state" and p: "pending connected_state = []"
    and c: "nextStartTime connected_state = 5"
    by (simp_all add: connected_state_def initial_state_def)
  have ni: "\<forall>tm\<in>set on_time_chunks. \<not> interrupted_of (snd tm)"
    by (simp add: on_time_chunks_def audio_message_simps)
  have arr: "arrivals quiet_world on_time_chunks = [(0, Buffer 1), (11/2, Buffer 1), (7, Buffer 1)]"
    by (simp add: on_time_chunks_def audio_message_simps)
  have ops: "\<forall>op\<in>set (run_messages False on_time_chunks). \<not> calls_stopAllAudio op"
    by (simp add: run_messages_def to_completion_def continuations_def audio_conts_def
        tool_conts_def on_time_chunks_def audio_message_simps)
  have on_time: "\<forall>j. 0 < j \<and> j < length (arrivals quiet_world on_time_chunks) \<longrightarrow>
      fst (arrivals quiet_world on_time_chunks ! j)
        \<le> foldl (float_add quiet_world)
             (max (nextStartTime connected_state) (fst (arrivals quiet_world on_time_chunks ! 0)))
             (buffers (take j (arrivals quiet_world on_time_chunks)))"
  proof (intro allI impI)
    fix j assume "0 < j \<and> j < length (arrivals quiet_world on_time_chunks)"
    then have "j = 1 \<or> j = 2" by (simp add: arr) arith
    then consider "j = 1" | "j = 2" by blast
    then show "fst (arrivals quiet_world on_time_chunks ! j)
        \<le> foldl (float_add quiet_world)
             (max (nextStartTime connected_state) (fst (arrivals quiet_world on_time_chunks ! 0)))
             (buffers (take j (arrivals quiet_world on_time_chunks)))"
      by cases (simp_all add: arr c quiet_world_simps numeral_2_eq_2)
  qed
  note T = chunk_start_times[of "run_messages False on_time_chunks" quiet_world connected_state
      False on_time_chunks]
  from T ops have 1: "no_overlap quiet_world (started (new_events connected_state
        (run_ops quiet_world False (run_messages False on_time_chunks) connected_state)))"
    by blast
  from T ctx p ni on_time
  have "starts (new_events connected_state
        (run_ops quiet_world False (run_messages False on_time_chunks) connected_state))
      = map (\<lambda>i. foldl (float_add quiet_world)
                    (max (nextStartTime connected_state) (fst (arrivals quiet_world on_time_chunks ! 0)))
                    (take i (buffers (arrivals quiet_world on_time_chunks))))
          [0..<length (buffers (arrivals quiet_world on_time_chunks))]"
    by blast
  also have "\<dots> = [5, 6, 7]"
    by (simp add: arr c quiet_world_simps upt_rec)
  finally have 2: "starts (new_events connected_state
        (run_ops quiet_world False (run_messages False on_time_chunks) connected_state))
       = [5, 6, 7]" .
  from ctx p c arr 1 2 show ?thesis by (simp add: audio_message_simps)
qed

lemma audio_message_run:
  assumes "d \<noteq> []" and "audioContext s" and "pending s = []"
  shows "run_ops quiet_world a (to_completion a t (audio_message d)) s =
     s\<lparr>isSpeaking := True, nextStartTime := max (nextStartTime s) t + 1,
       sources := sources s @ [\<lparr>src_id = ticks s, src_start = max (nextStartTime s) t,
                                 src_duration = 1\<rparr>],
       ticks := Suc (ticks s),
       trace := trace s @ [Ev_source_start
                  \<lparr>src_id = ticks s, src_start = max (nextStartTime s) t, src_duration = 1\<rparr>]\<rparr>"
  unfolding link_message[OF assms(3)] complete_with_audio[OF audio_message_simps(2)]
  using assms(1,2)
  by (simp add: complete_audio_eq finish_audio_eq after_signals_def handle_interruption_eq
      audio_message_simps quiet_world_simps complete_tools_def)
     (simp add: handle_transcriptions_def audio_message_def prog_defs)

text \<open>
  C1, as the claim states it, fails: with the cursor at 5, a chunk of one second that
  arrives at the time 0 starts at 5 and ends at 6, and a chunk that arrives at the time
  10 starts at 10, not at \<open>max 5 0 + 1 = 6\<close>.
\<close>

theorem late_chunk_counterexample:
  "audioContext connected_state
   \<and> pending connected_state = []
   \<and> nextStartTime connected_state = 5
   \<and> arrivals quiet_world [(0, audio_message ''a''), (10, audio_message ''b'')]
       = [(0, Buffer 1), (10, Buffer 1)]
   \<and> starts (new_events connected_state
        (run_ops quiet_world False
           (run_messages False [(0, audio_message ''a''), (10, audio_message ''b'')])
           connected_state))
       = [5, 10]
   \<and> (10 :: real) \<noteq> max 5 0 + 1"
  by (simp add: run_messages_def run_ops_append audio_message_simps audio_message_run
      new_events_def starts_def connected_state_def initial_state_def)

text \<open>
  The start times depend on the order of the operations.  With the cursor at 5, a chunk
  arrives at the time 6 and a second one at the time 9, before the first has decoded:
  the first chunk starts at 9 and the second at 10, while the first would start at 6
  and the second at 9 if the handler of the first ran to its end before the second
  arrives.
\<close>

lemma interleaved_chunks_example:
  "starts (new_events connected_state
     (run_ops quiet_world False
        [Op_message 6 (audio_message ''a''), Op_message 9 (audio_message ''b''),
         Op_resume (After_decode ''a'' (audio_message ''a'')),
         Op_resume (After_decode ''b'' (audio_message ''b''))]
        connected_state))
     = [9, 10]
   \<and> starts (new_events connected_state
     (run_ops quiet_world False
        [Op_message 6 (audio_message ''a''),
         Op_resume (After_decode ''a'' (audio_message ''a'')),
         Op_message 9 (audio_message ''b''),
         Op_resume (After_decode ''b'' (audio_message ''b''))]
        connected_state))
     = [6, 9]"
  by (simp add: settle_def handler_unfold after_signals_def handle_audio_def
      handle_interruption_eq handle_transcriptions_def handle_tool_calls_def
      interrupted_of_def audioData_of_def finish_audio_def audio_message_def
      prog_defs tick_def Let_def quiet_world_def new_events_def starts_def
      connected_state_def initial_state_def)


section \<open>Properties of the cursor\<close>

lemma message_starts_nothing:
  "\<exists>evs. trace (run_op w a (Op_message t m) s) = trace s @ evs \<and> started evs = []"
proof -
  let ?s2 = "after_signals w m s"
  let ?stops = "if interrupted_of m then map Ev_source_stop (sources s) else []"
  have 2: "trace ?s2 = trace s @ ?stops" by (simp add: after_signals_props)
  have "\<exists>evs. trace (snd (handleSessionMessage w a t m s)) = trace ?s2 @ evs \<and> started evs = []"
  proof (cases "audioData_of m")
    case (Inl e)
    then show ?thesis by (simp add: handler_unfold bnd_def lift_def)
  next
    case (Inr ad)
    with handle_audio_quiet[of ?s2 w a t m ad] show ?thesis
      by (simp add: handler_unfold bnd_def lift_def quiet_def)
  qed
  then obtain evs where "trace (snd (handleSessionMessage w a t m s)) = trace s @ (?stops @ evs)"
    and "started (?stops @ evs) = []"
    using 2 by (auto simp add: started_append stops_no_starts)
  then show ?thesis by (simp only: run_op.simps settle_fields) blast
qed

lemma message_reads_clock:
  assumes "audioData_of m = Inr (Some data)" and "data \<noteq> []" and "audioContext s"
  shows "t \<le> nextStartTime (run_op w a (Op_message t m) s)"
proof -
  let ?s2 = "after_signals w m s"
  let ?s3 = "?s2\<lparr>isSpeaking := True, nextStartTime := max (nextStartTime ?s2) t\<rparr>"
  have ctx: "audioContext ?s2" using assms(3) by (simp add: after_signals_props)
  have "snd (handleSessionMessage w a t m s) = ?s3
      \<or> snd (handleSessionMessage w a t m s) = snd (handle_tool_calls w a m ?s3)"
    using assms(1,2) ctx
    by (cases "decodeAudioData w data")
       (simp_all add: handler_unfold bnd_def lift_def handle_audio_def seq_def modify_def ret_def)
  moreover have "nextStartTime (snd (handle_tool_calls w a m ?s3)) = nextStartTime ?s3"
    by (rule frame_fields(1)[OF invariantD[OF frame_handle_tool_calls frame_refl]])
  ultimately have "nextStartTime (snd (handleSessionMessage w a t m s)) = max (nextStartTime ?s2) t"
    by auto
  then show ?thesis by (simp add: settle_fields)
qed

lemma op_monotone:
  assumes "\<forall>data d. decodeAudioData w data = Buffer d \<longrightarrow> 0 \<le> d"
    and "\<forall>c d. 0 \<le> d \<longrightarrow> c \<le> float_add w c d"
    and "\<not> calls_stopAllAudio op"
  shows "nextStartTime s \<le> nextStartTime (run_op w a op s)"
  using op_effect[OF assms(3), of s w a]
proof
  assume "quiet s (run_op w a op s)"
  then show ?thesis by (simp add: quiet_def)
next
  assume "\<exists>x evs. trace (run_op w a op s) = trace s @ evs
        \<and> started evs = [x] \<and> src_start x = nextStartTime s
        \<and> nextStartTime (run_op w a op s) = float_add w (src_start x) (src_duration x)
        \<and> (\<exists>data. decodeAudioData w data = Buffer (src_duration x))"
  then obtain x :: source_node where x: "src_start x = nextStartTime s"
    "nextStartTime (run_op w a op s) = float_add w (src_start x) (src_duration x)"
    and "\<exists>data. decodeAudioData w data = Buffer (src_duration x)" by blast
  then obtain data where "decodeAudioData w data = Buffer (src_duration x)" by blast
  from assms(1) this have "0 \<le> src_duration x" by blast
  with assms(2) have "src_start x \<le> float_add w (src_start x) (src_duration x)" by blast
  with x(1,2) show ?thesis by simp
qed

lemma run_ops_after:
  assumes "\<forall>data d. decodeAudioData w data = Buffer d \<longrightarrow> 0 \<le> d"
    and "\<forall>c d. 0 \<le> d \<longrightarrow> c \<le> float_add w c d"
  shows "\<forall>op\<in>set ops. \<not> calls_stopAllAudio op \<Longrightarrow> t \<le> nextStartTime s \<Longrightarrow>
    \<exists>evs. trace (run_ops w a ops s) = trace s @ evs \<and> (\<forall>x\<in>set (started evs). t \<le> src_start x)"
proof (induction ops arbitrary: s)
  case Nil
  then show ?case by simp
next
  case (Cons op ops)
  let ?s1 = "run_op w a op s"
  from Cons.prems(1) have n: "\<not> calls_stopAllAudio op"
    and rest: "\<forall>op\<in>set ops. \<not> calls_stopAllAudio op" by simp_all
  from op_monotone[OF assms n, of s a] Cons.prems(2) have t1: "t \<le> nextStartTime ?s1" by simp
  from Cons.IH[OF rest t1] obtain evs where
    e: "trace (run_ops w a ops ?s1) = trace ?s1 @ evs" "\<forall>x\<in>set (started evs). t \<le> src_start x"
    by blast
  from op_effect[OF n, of s w a]
  have "\<exists>evs1. trace ?s1 = trace s @ evs1 \<and> (\<forall>x\<in>set (started evs1). t \<le> src_start x)"
  proof
    assume "quiet s ?s1"
    then show ?thesis by (auto simp add: quiet_def)
  next
    assume "\<exists>x evs. trace ?s1 = trace s @ evs
        \<and> started evs = [x] \<and> src_start x = nextStartTime s
        \<and> nextStartTime ?s1 = float_add w (src_start x) (src_duration x)
        \<and> (\<exists>data. decodeAudioData w data = Buffer (src_duration x))"
    then obtain x evs1 where "trace ?s1 = trace s @ evs1" "started evs1 = [x]"
      "src_start x = nextStartTime s" by blast
    with Cons.prems(2) show ?thesis by (intro exI[of _ evs1]) simp
  qed
  then obtain evs1 where e1: "trace ?s1 = trace s @ evs1" "\<forall>x\<in>set (started evs1). t \<le> src_start x"
    by blast
  have "trace (run_ops w a (op # ops) s) = trace s @ (evs1 @ evs)" using e(1) e1(1) by simp
  moreover have "\<forall>x\<in>set (started (evs1 @ evs)). t \<le> src_start x"
    using e(2) e1(2) by (auto simp add: started_append)
  ultimately show ?case by blast
qed

text \<open>
  C2, as the code has it.  Take an environment whose buffers have durations that are not
  negative and whose addition does not make a time earlier by adding such a duration.
  Then the cursor after an operation is not earlier than before it, for every operation
  whose handler does not call \<open>stopAllAudio\<close> (that is, every operation but a message
  with the interruption signal, the close of the transport and the end request, which
  reset the cursor to 0).  When the handler of a message has a chunk and has read the
  device clock for it, the cursor is not earlier than that reading; and whatever
  operations follow, as long as none of them calls \<open>stopAllAudio\<close>, every source that is
  started, the one of this chunk among them, starts at a time that is not earlier than
  that reading.
\<close>

theorem cursor_monotone_between_resets:
  assumes "\<forall>data d. decodeAudioData w data = Buffer d \<longrightarrow> 0 \<le> d"
    and "\<forall>c d. 0 \<le> d \<longrightarrow> c \<le> float_add w c d"
  shows "(\<not> calls_stopAllAudio op \<longrightarrow> nextStartTime s \<le> nextStartTime (run_op w a op s))
       \<and> (audioData_of m = Inr (Some data) \<and> data \<noteq> [] \<and> audioContext s \<longrightarrow>
            t \<le> nextStartTime (run_op w a (Op_message t m) s)
            \<and> ((\<forall>op\<in>set ops. \<not> calls_stopAllAudio op) \<longrightarrow>
                 (\<forall>x\<in>set (started (new_events s (run_ops w a (Op_message t m # ops) s))).
                     t \<le> src_start x)))"
proof (intro conjI impI)
  assume "\<not> calls_stopAllAudio op"
  from op_monotone[OF assms this] show "nextStartTime s \<le> nextStartTime (run_op w a op s)" .
next
  assume "audioData_of m = Inr (Some data) \<and> data \<noteq> [] \<and> audioContext s"
  then have "audioData_of m = Inr (Some data)" "data \<noteq> []" "audioContext s" by blast+
  from message_reads_clock[OF this]
  show c: "t \<le> nextStartTime (run_op w a (Op_message t m) s)" .
  assume "\<forall>op\<in>set ops. \<not> calls_stopAllAudio op"
  from run_ops_after[OF assms this c] obtain evs where
    e: "trace (run_ops w a ops (run_op w a (Op_message t m) s))
          = trace (run_op w a (Op_message t m) s) @ evs"
       "\<forall>x\<in>set (started evs). t \<le> src_start x" by blast
  from message_starts_nothing[of w a t m s] obtain evs0 where
    e0: "trace (run_op w a (Op_message t m) s) = trace s @ evs0" "started evs0 = []" by blast
  have "trace (run_ops w a (Op_message t m # ops) s) = trace s @ (evs0 @ evs)"
    using e(1) e0(1) by simp
  from new_events_append[OF this] e(2) e0(2)
  show "\<forall>x\<in>set (started (new_events s (run_ops w a (Op_message t m # ops) s))). t \<le> src_start x"
    by (simp add: started_append)
qed

text \<open>
  The theorem at a chunk that arrives at the time 7 while the cursor is at 5, whose
  handler is resumed at once.
\<close>

theorem cursor_monotone_between_resets_witness:
  "decodeAudioData quiet_world ''a'' = Buffer 1
   \<and> float_add quiet_world 7 1 = 8
   \<and> \<not> calls_stopAllAudio (Op_message 7 (audio_message ''a''))
   \<and> \<not> calls_stopAllAudio (Op_resume (After_decode ''a'' (audio_message ''a'')))
   \<and> audioData_of (audio_message ''a'') = Inr (Some ''a'')
   \<and> audioContext connected_state
   \<and> nextStartTime connected_state
        \<le> nextStartTime (run_op quiet_world False (Op_message 7 (audio_message ''a'')) connected_state)
   \<and> 7 \<le> nextStartTime (run_op quiet_world False (Op_message 7 (audio_message ''a'')) connected_state)
   \<and> started (new_events connected_state
         (run_ops quiet_world False
            [Op_message 7 (audio_message ''a''), Op_resume (After_decode ''a'' (audio_message ''a''))]
            connected_state))
       = [\<lparr>src_id = 0, src_start = 7, src_duration = 1\<rparr>]
   \<and> (7 :: real) \<le> src_start \<lparr>src_id = 0, src_start = 7, src_duration = 1\<rparr>"
proof -
  have nonneg: "\<forall>data d. decodeAudioData quiet_world data = Buffer d \<longrightarrow> 0 \<le> d"
    and mono: "\<forall>c d. 0 \<le> d \<longrightarrow> c \<le> float_add quiet_world c d"
    by (simp_all add: quiet_world_def)
  have n: "\<not> calls_stopAllAudio (Op_message 7 (audio_message ''a''))"
    "\<not> calls_stopAllAudio (Op_resume (After_decode ''a'' (audio_message ''a'')))"
    by (simp_all add: audio_message_simps)
  have g: "audioData_of (audio_message ''a'') = Inr (Some ''a'')" "audioContext connected_state"
    by (simp_all add: audio_message_simps connected_state_def initial_state_def)
  have p: "pending connected_state = []" by (simp add: connected_state_def initial_state_def)
  have st: "started (new_events connected_state
         (run_ops quiet_world False
            [Op_message 7 (audio_message ''a''), Op_resume (After_decode ''a'' (audio_message ''a''))]
            connected_state))
       = [\<lparr>src_id = 0, src_start = 7, src_duration = 1\<rparr>]"
    using audio_message_run[of "''a''" connected_state False 7] g(2) p
    by (simp add: to_completion_def continuations_def audio_conts_def tool_conts_def
        audio_message_simps new_events_def connected_state_def initial_state_def)
  note T = cursor_monotone_between_resets
      [OF nonneg mono, of "Op_message 7 (audio_message ''a'')" connected_state False
         "audio_message ''a''" "''a''" 7 "[Op_resume (After_decode ''a'' (audio_message ''a''))]"]
  from T n have 1: "nextStartTime connected_state
        \<le> nextStartTime (run_op quiet_world False (Op_message 7 (audio_message ''a'')) connected_state)"
    by blast
  from T g have 2:
    "7 \<le> nextStartTime (run_op quiet_world False (Op_message 7 (audio_message ''a'')) connected_state)"
    by simp
  from T g n st have 3: "(7 :: real) \<le> src_start \<lparr>src_id = 0, src_start = 7, src_duration = 1\<rparr>"
    by simp
  have 0: "decodeAudioData quiet_world ''a'' = Buffer 1" "float_add quiet_world 7 1 = 8"
    by (simp_all add: quiet_world_def)
  from 0 n g 1 2 st 3 show ?thesis by blast
qed

text \<open>
  C2, as the claim states it, fails: a message with the interruption signal, and the
  close of the transport, take the cursor from 5 back to 0; and a chunk whose handler
  has read the clock at the time 7 and awaits the decoder is started at the time 0 when
  a message with the interruption signal is handled before the handler is resumed.
\<close>

theorem cursor_reset_counterexample:
  "nextStartTime connected_state = 5
   \<and> nextStartTime (run_op quiet_world False (Op_message 6 interrupt_message) connected_state) = 0
   \<and> nextStartTime (run_op quiet_world False Op_close connected_state) = 0
   \<and> starts (new_events connected_state
        (run_ops quiet_world False
           [Op_message 7 (audio_message ''a''), Op_message 8 interrupt_message,
            Op_resume (After_decode ''a'' (audio_message ''a''))]
           connected_state))
       = [0]"
  by (simp add: settle_def handler_unfold after_signals_def handle_audio_def
      handle_interruption_eq handle_transcriptions_def handle_tool_calls_def
      interrupt_message_def audio_message_def interrupted_of_def audioData_of_def
      finish_audio_def onclose_def cleanupAudioNodes_eq stopAllAudio_eq setStatus_def
      prog_defs tick_def Let_def quiet_world_def new_events_def starts_def
      connected_state_def initial_state_def playing_source_def)


end
